theory Spec2Isabelle
  imports Main
begin

section \<open>Errors and collaborator replies\<close>

text \<open>
  Every failure of the TypeScript sources is a rejected promise carrying an \<open>Error\<close> with a
  message. The model keeps the message and tags it with the class the failure belongs to:
  an argument check of the code itself, a timeout synthesised by the code, or a failure
  thrown by a collaborator and passed on unchanged.
\<close>

datatype error = InvalidArgument string | Timeout string | UpstreamFailure string

text \<open>
  A collaborator call either rejects with a message (\<open>Inl\<close>) or resolves with a value.
  Only the code under verification creates \<open>InvalidArgument\<close> and \<open>Timeout\<close>; a rejected
  collaborator call always surfaces as \<open>UpstreamFailure\<close>.
\<close>

type_synonym 'a reply = "string + 'a"

section \<open>TeamsFluidClient: joining the container of the current context\<close>

subsection \<open>Data\<close>

text \<open>The values of \<open>ContainerState\<close> that the sources under study mention.\<close>

datatype ContainerState = added | alreadyExists | notFound

text \<open>
  \<open>IFluidContainerInfo\<close> of TeamsLiveAPI.ts. \<open>containerId\<close> is \<open>string | undefined\<close>,
  \<open>retryAfter\<close> a number of milliseconds.
\<close>

record IFluidContainerInfo =
  containerState :: ContainerState
  containerId :: "string option"
  shouldCreate :: bool
  retryAfter :: int

text \<open>
  What \<open>client.createContainer\<close> and \<open>client.getContainer\<close> resolve to: the container and
  its services, both opaque handles. \<open>joinContainer\<close> adds the \<open>created\<close> flag.
\<close>

record ContainerAndServices =
  container :: nat
  services :: nat

record JoinResult = ContainerAndServices +
  created :: bool

text \<open>
  The observable history of one client: every collaborator call it made, in order, with
  the reply it got.
\<close>

datatype event =
    GetFluidContainerId "IFluidContainerInfo reply"
  | CreateContainer "ContainerAndServices reply"
  | OnInitializeContainer nat "unit reply"
  | Attach nat "string reply"
  | SetFluidContainerId string "bool reply"
  | Dispose nat "unit reply"
  | GetContainer string "ContainerAndServices reply"
  | Wait int

text \<open>
  The collaborators of \<open>getOrCreateContainer\<close>. Each one answers as a function of the
  history so far, which makes the environment deterministic but otherwise arbitrary:
  \<open>this.getFluidContainerId()\<close>, \<open>client.createContainer(schema)\<close>, \<open>container.attach()\<close>,
  \<open>this.setFluidContainerId(id)\<close>, \<open>container.dispose()\<close> and
  \<open>client.getContainer(id, schema)\<close>. Both modes of the client (the service, and the local
  test mode that keeps the ID in the page's URL) are environments of this kind. Every one
  of these calls can throw or reject, \<open>dispose\<close> included. \<open>this.wait(delay)\<close> is a timer
  whose promise only ever resolves; it is recorded with its delay.
\<close>

record collaborators =
  getFluidContainerId :: "event list \<Rightarrow> IFluidContainerInfo reply"
  createContainer :: "event list \<Rightarrow> ContainerAndServices reply"
  attach :: "event list \<Rightarrow> nat \<Rightarrow> string reply"
  setFluidContainerId :: "event list \<Rightarrow> string \<Rightarrow> bool reply"
  dispose :: "event list \<Rightarrow> nat \<Rightarrow> unit reply"
  getContainer :: "event list \<Rightarrow> string \<Rightarrow> ContainerAndServices reply"

text \<open>The optional \<open>onInitializeContainer\<close> callback; it may throw.\<close>

type_synonym hook = "event list \<Rightarrow> nat \<Rightarrow> unit reply"

text \<open>
  JavaScript truthiness of a \<open>string | undefined\<close>: defined and not empty. The function
  returns the string when it is truthy, so that the branch taken can use it.
\<close>

fun truthy :: "string option \<Rightarrow> string option" where
  "truthy None = None"
| "truthy (Some s) = (if s = [] then None else Some s)"

definition timeout_message :: string where
  "timeout_message =
     ''TeamsFluidClient: timed out attempting to create or get container for current context.''"

subsection \<open>getOrCreateContainer and createNewContainer\<close>

text \<open>
  The two methods call each other, and nothing in the source bounds the recursion through
  \<open>createNewContainer\<close>: an environment that always answers \<open>shouldCreate\<close> and always
  refuses the new ID keeps the client looping. The model therefore takes fuel, one unit
  per call of \<open>getOrCreateContainer\<close>; \<open>None\<close> means the fuel ran out before the promise
  settled. The arguments are the fuel, the collaborators, \<open>maxContainerLookupTries\<close>, the
  optional callback, \<open>tries\<close> and the history so far; the result is the settled promise
  and the extended history.

  \<^verbatim>\<open>
  const containerInfo = await this.getFluidContainerId();
  if (containerInfo.shouldCreate) {
      return await this.createNewContainer(client, schema, tries, onInitializeContainer);
  } else if (containerInfo.containerId) {
      return {created: false, ...await client.getContainer(containerInfo.containerId, schema)};
  } else if (tries < this.maxContainerLookupTries && containerInfo.retryAfter > 0) {
      await this.wait(containerInfo.retryAfter);
      return await this.getOrCreateContainer(client, schema, tries + 1, onInitializeContainer);
  } else {
      throw new Error(`TeamsFluidClient: timed out attempting to create or get container ...`);
  }
  \<close>
  and
  \<^verbatim>\<open>
  const { container, services } = await client.createContainer(schema);
  if (onInitializeContainer) { onInitializeContainer(container) }
  const newContainerId = await container.attach();
  if (!await this.setFluidContainerId(newContainerId)) {
      container.dispose();
      return this.getOrCreateContainer(client, schema, tries + 1, onInitializeContainer);
  } else {
      return {container, services, created: true};
  }
  \<close>
\<close>

text \<open>
  \<open>if (onInitializeContainer) { onInitializeContainer(container) }\<close>: the callback, when
  there is one, is called on the new container, and the call is recorded with its result.
\<close>

definition runHook :: "hook option \<Rightarrow> event list \<Rightarrow> nat \<Rightarrow> (unit reply \<times> event list)" where
  "runHook h t c =
     (case h of
        None \<Rightarrow> (Inr (), t)
      | Some f \<Rightarrow> (f t c, t @ [OnInitializeContainer c (f t c)]))"

fun getOrCreateContainer ::
    "nat \<Rightarrow> collaborators \<Rightarrow> int \<Rightarrow> hook option \<Rightarrow> int \<Rightarrow> event list
       \<Rightarrow> ((error + JoinResult) \<times> event list) option"
and createNewContainer ::
    "nat \<Rightarrow> collaborators \<Rightarrow> int \<Rightarrow> hook option \<Rightarrow> int \<Rightarrow> event list
       \<Rightarrow> ((error + JoinResult) \<times> event list) option"
where
  "getOrCreateContainer 0 env maxTries h tries t = None"
| "getOrCreateContainer (Suc fuel) env maxTries h tries t =
     (let r = getFluidContainerId env t; t1 = t @ [GetFluidContainerId r] in
      case r of
        Inl msg \<Rightarrow> Some (Inl (UpstreamFailure msg), t1)
      | Inr containerInfo \<Rightarrow>
          if shouldCreate containerInfo then
            createNewContainer fuel env maxTries h tries t1
          else
            (case truthy (containerId containerInfo) of
               Some cid \<Rightarrow>
                 (let g = getContainer env t1 cid; t2 = t1 @ [GetContainer cid g] in
                  case g of
                    Inl msg \<Rightarrow> Some (Inl (UpstreamFailure msg), t2)
                  | Inr cs \<Rightarrow>
                      Some (Inr (ContainerAndServices.extend cs (JoinResult.fields False)), t2))
             | None \<Rightarrow>
                 if tries < maxTries \<and> retryAfter containerInfo > 0 then
                   getOrCreateContainer fuel env maxTries h (tries + 1)
                     (t1 @ [Wait (retryAfter containerInfo)])
                 else
                   Some (Inl (Timeout timeout_message), t1)))"
| "createNewContainer fuel env maxTries h tries t =
     (let c = createContainer env t; t1 = t @ [CreateContainer c] in
      case c of
        Inl msg \<Rightarrow> Some (Inl (UpstreamFailure msg), t1)
      | Inr cs \<Rightarrow>
          (case runHook h t1 (container cs) of
             (Inl msg, t2) \<Rightarrow> Some (Inl (UpstreamFailure msg), t2)
           | (Inr u, t2) \<Rightarrow>
               (let a = attach env t2 (container cs); t3 = t2 @ [Attach (container cs) a] in
                case a of
                  Inl msg \<Rightarrow> Some (Inl (UpstreamFailure msg), t3)
                | Inr newContainerId \<Rightarrow>
                    (let p = setFluidContainerId env t3 newContainerId;
                         t4 = t3 @ [SetFluidContainerId newContainerId p] in
                     case p of
                       Inl msg \<Rightarrow> Some (Inl (UpstreamFailure msg), t4)
                     | Inr ok \<Rightarrow>
                         if \<not> ok then
                           (let d = dispose env t4 (container cs);
                                t5 = t4 @ [Dispose (container cs) d] in
                            case d of
                              Inl msg \<Rightarrow> Some (Inl (UpstreamFailure msg), t5)
                            | Inr u \<Rightarrow>
                                getOrCreateContainer fuel env maxTries h (tries + 1) t5)
                         else
                           Some (Inr (ContainerAndServices.extend cs (JoinResult.fields True)),
                                 t4)))))"

text \<open>
  \<open>joinContainer\<close> obtains the container by
  \<open>this.getOrCreateContainer(client, fluidContainerSchema, 0, onContainerFirstCreated)\<close>:
  the first call has \<open>tries = 0\<close>. The bound on the tries is the public field
  \<open>maxContainerLookupTries\<close>, documented as the "number of times the client should attempt
  to get the ID of the container to join for the current context"; this is its initial
  value.
\<close>

definition maxContainerLookupTries :: int where
  "maxContainerLookupTries = 3"

subsection \<open>Reading a history\<close>

fun isLookup :: "event \<Rightarrow> bool" where
  "isLookup (GetFluidContainerId r) = True"
| "isLookup e = False"

text \<open>How many times the lookup collaborator was invoked.\<close>

definition lookups :: "event list \<Rightarrow> nat" where
  "lookups t = length (filter isLookup t)"





text \<open>
  Adjacency in a history: every element satisfying \<open>P\<close> is directly followed by one related
  to it by \<open>Q\<close>, respectively directly preceded by one (\<open>prev\<close> is the element before the
  list, if any).
\<close>

fun eachFollowed :: "('a \<Rightarrow> bool) \<Rightarrow> ('a \<Rightarrow> 'a \<Rightarrow> bool) \<Rightarrow> 'a list \<Rightarrow> bool" where
  "eachFollowed P Q [] = True"
| "eachFollowed P Q [e] = (\<not> P e)"
| "eachFollowed P Q (e # d # es) = ((P e \<longrightarrow> Q e d) \<and> eachFollowed P Q (d # es))"

fun eachPreceded ::
    "('a \<Rightarrow> bool) \<Rightarrow> ('a \<Rightarrow> 'a \<Rightarrow> bool) \<Rightarrow> 'a option \<Rightarrow> 'a list \<Rightarrow> bool" where
  "eachPreceded P Q prev [] = True"
| "eachPreceded P Q prev (e # es) =
     ((P e \<longrightarrow> (case prev of None \<Rightarrow> False | Some d \<Rightarrow> Q d e))
      \<and> eachPreceded P Q (Some e) es)"

fun isCreated :: "event \<Rightarrow> bool" where
  "isCreated (CreateContainer (Inr cs)) = True"
| "isCreated e = False"

fun isHookRun :: "event \<Rightarrow> bool" where
  "isHookRun (OnInitializeContainer c r) = True"
| "isHookRun e = False"

fun isAttach :: "event \<Rightarrow> bool" where
  "isAttach (Attach c a) = True"
| "isAttach e = False"

fun hookRunOnCreated :: "event \<Rightarrow> event \<Rightarrow> bool" where
  "hookRunOnCreated (CreateContainer (Inr cs)) (OnInitializeContainer c r) = (c = container cs)"
| "hookRunOnCreated d e = False"

fun attachAfterHook :: "event \<Rightarrow> event \<Rightarrow> bool" where
  "attachAfterHook (OnInitializeContainer c (Inr u)) (Attach c' a) = (c = c')"
| "attachAfterHook d e = False"

definition disciplined :: "event list \<Rightarrow> bool" where
  "disciplined evs \<longleftrightarrow>
     eachFollowed isCreated hookRunOnCreated evs
     \<and> eachPreceded isHookRun hookRunOnCreated None evs
     \<and> eachPreceded isAttach attachAfterHook None evs"

text \<open>A conditional publish that answered false: another client's container is in use.\<close>

fun isLostRace :: "event \<Rightarrow> bool" where
  "isLostRace (SetFluidContainerId i (Inr ok)) = (\<not> ok)"
| "isLostRace e = False"

fun isDispose :: "event \<Rightarrow> bool" where
  "isDispose (Dispose c d) = True"
| "isDispose e = False"

text \<open>A \<open>dispose\<close> that returned.\<close>

fun isDisposed :: "event \<Rightarrow> bool" where
  "isDisposed (Dispose c (Inr u)) = True"
| "isDisposed e = False"

text \<open>The message of a \<open>dispose\<close> that threw, and of a callback that threw.\<close>

fun disposeThrew :: "event \<Rightarrow> string option" where
  "disposeThrew (Dispose c (Inl msg)) = Some msg"
| "disposeThrew e = None"

fun hookThrew :: "event \<Rightarrow> string option" where
  "hookThrew (OnInitializeContainer c (Inl msg)) = Some msg"
| "hookThrew e = None"

text \<open>
  An event that \<open>thrown\<close> reads as an exception is the last event of the call, and the call
  fails with the exception's message.
\<close>

fun throwEnds ::
    "(event \<Rightarrow> string option) \<Rightarrow> (error + JoinResult) \<Rightarrow> event list \<Rightarrow> bool" where
  "throwEnds thrown out [] = True"
| "throwEnds thrown out [e] =
     (case thrown e of None \<Rightarrow> True | Some msg \<Rightarrow> out = Inl (UpstreamFailure msg))"
| "throwEnds thrown out (e # d # es) = (thrown e = None \<and> throwEnds thrown out (d # es))"

text \<open>
  Every recorded run of the callback carries what the callback \<open>f\<close> returns on the history
  before the run (\<open>t\<close>, extended by the events before it) and the container recorded.
\<close>

fun hookRuns :: "hook \<Rightarrow> event list \<Rightarrow> event list \<Rightarrow> bool" where
  "hookRuns f t [] = True"
| "hookRuns f t (OnInitializeContainer c r # evs) =
     (r = f t c \<and> hookRuns f (t @ [OnInitializeContainer c r]) evs)"
| "hookRuns f t (e # evs) = hookRuns f (t @ [e]) evs"

definition unwinds :: "(error + JoinResult) \<Rightarrow> event list \<Rightarrow> bool" where
  "unwinds out evs \<longleftrightarrow>
     eachFollowed isLostRace (\<lambda>e d. isDispose d) evs
     \<and> eachFollowed isDisposed (\<lambda>e d. isLookup d) evs
     \<and> throwEnds disposeThrew out evs"

subsection \<open>Example environments\<close>

text \<open>
  The lookup collaborator that never has an answer: no container yet, do not create one,
  ask again in 50 ms. The other collaborators are never reached.
\<close>

definition pendingInfo :: IFluidContainerInfo where
  "pendingInfo =
     \<lparr>containerState = notFound, containerId = None, shouldCreate = False, retryAfter = 50\<rparr>"

definition pendingEnv :: collaborators where
  "pendingEnv =
     \<lparr>getFluidContainerId = (\<lambda>t. Inr pendingInfo),
      createContainer = (\<lambda>t. Inl ''not reached''),
      attach = (\<lambda>t c. Inl ''not reached''),
      setFluidContainerId = (\<lambda>t i. Inl ''not reached''),
      dispose = (\<lambda>t c. Inl ''not reached''),
      getContainer = (\<lambda>t i. Inl ''not reached'')\<rparr>"

text \<open>
  A lost race: the first lookup says to create, the conditional publish is refused, and
  from then on the lookup reports the winner's container \<open>''winner''\<close>.
\<close>

definition lostRaceEnv :: collaborators where
  "lostRaceEnv =
     \<lparr>getFluidContainerId = (\<lambda>t.
        if t = [] then
          Inr \<lparr>containerState = notFound, containerId = None, shouldCreate = True,
               retryAfter = 0\<rparr>
        else
          Inr \<lparr>containerState = alreadyExists, containerId = Some ''winner'',
               shouldCreate = False, retryAfter = 0\<rparr>),
      createContainer = (\<lambda>t. Inr \<lparr>container = 1, services = 2\<rparr>),
      attach = (\<lambda>t c. Inr ''mine''),
      setFluidContainerId = (\<lambda>t i. Inr False),
      dispose = (\<lambda>t c. Inr ()),
      getContainer = (\<lambda>t i. Inr \<lparr>container = 7, services = 8\<rparr>)\<rparr>"

text \<open>The same lost race, with a container whose \<open>dispose\<close> throws.\<close>

definition disposeFailsEnv :: collaborators where
  "disposeFailsEnv = lostRaceEnv\<lparr>dispose := (\<lambda>t c. Inl ''dispose failed'')\<rparr>"

text \<open>The first client of a meeting: it is told to create, and its publish is accepted.\<close>

definition firstClientEnv :: collaborators where
  "firstClientEnv =
     \<lparr>getFluidContainerId = (\<lambda>t.
        Inr \<lparr>containerState = notFound, containerId = None, shouldCreate = True,
             retryAfter = 0\<rparr>),
      createContainer = (\<lambda>t. Inr \<lparr>container = 1, services = 2\<rparr>),
      attach = (\<lambda>t c. Inr ''mine''),
      setFluidContainerId = (\<lambda>t i. Inr True),
      dispose = (\<lambda>t c. Inl ''not reached''),
      getContainer = (\<lambda>t i. Inl ''not reached'')\<rparr>"

text \<open>A callback that returns, and one that throws.\<close>

definition okHook :: hook where
  "okHook = (\<lambda>t c. Inr ())"

definition throwingHook :: hook where
  "throwingHook = (\<lambda>t c. Inl ''init failed'')"

section \<open>The bounded backoff poller\<close>

text \<open>
  What one poll did, in order: each invocation of the operation with what it produced, and
  each wait with its duration.
\<close>

datatype 'r poll_event = Attempt "error + 'r" | Pause nat

text \<open>
  Modelled from the spec: \<open>waitForResult\<close> of \<open>internals/utils.ts\<close> is imported by
  RoleVerifier.ts but is not among the sources. The definition follows section 4.2 of the
  specification (\<open>pollUntil(operation, isAcceptable, onTimeout, schedule)\<close>): invoke the
  operation; a failure of the operation is passed on at once; an acceptable result is
  returned; otherwise wait the next duration of the schedule and try again, and fail with
  \<open>onTimeout()\<close> when the schedule is used up. The state \<open>'s\<close> is whatever the operation
  and the timer \<open>wait\<close> act on. The third component of the result records what was done.
\<close>

fun waitForResult ::
    "('s \<Rightarrow> (error + 'r) \<times> 's) \<Rightarrow> ('r \<Rightarrow> bool) \<Rightarrow> (unit \<Rightarrow> error) \<Rightarrow> (nat \<Rightarrow> 's \<Rightarrow> 's)
       \<Rightarrow> nat list \<Rightarrow> 's \<Rightarrow> (error + 'r) \<times> 's \<times> 'r poll_event list"
where
  "waitForResult operation isAcceptable onTimeout wait [] s =
     (case operation s of
        (Inl e, s1) \<Rightarrow> (Inl e, s1, [Attempt (Inl e)])
      | (Inr result, s1) \<Rightarrow>
          if isAcceptable result then (Inr result, s1, [Attempt (Inr result)])
          else (Inl (onTimeout ()), s1, [Attempt (Inr result)]))"
| "waitForResult operation isAcceptable onTimeout wait (d # schedule) s =
     (case operation s of
        (Inl e, s1) \<Rightarrow> (Inl e, s1, [Attempt (Inl e)])
      | (Inr result, s1) \<Rightarrow>
          if isAcceptable result then (Inr result, s1, [Attempt (Inr result)])
          else
            (case waitForResult operation isAcceptable onTimeout wait schedule (wait d s1) of
               (out, s2, evs) \<Rightarrow> (out, s2, Attempt (Inr result) # Pause d # evs)))"

text \<open>The results of the attempts of a poll, and the waits between them, in order.\<close>

fun attempts :: "'r poll_event list \<Rightarrow> (error + 'r) list" where
  "attempts [] = []"
| "attempts (Attempt r # evs) = r # attempts evs"
| "attempts (Pause d # evs) = attempts evs"

fun pauses :: "'r poll_event list \<Rightarrow> nat list" where
  "pauses [] = []"
| "pauses (Attempt r # evs) = pauses evs"
| "pauses (Pause d # evs) = d # pauses evs"

section \<open>The single-flight cache\<close>

text \<open>
  Modelled from the spec: \<open>RequestCache\<close> of \<open>internals/RequestCache.ts\<close> is imported by
  RoleVerifier.ts but is not among the sources. The definitions follow sections 3, 4.1 and
  9 of the specification: a key is empty, pending (a producer is in flight, with the
  callers awaiting it, in order of arrival) or ready (a value and the time it expires).
\<close>

datatype 'v entry = Pending "nat list" | Ready 'v nat

text \<open>
  Modelled from the spec: the state of a \<open>RequestCache\<close> (RequestCache.ts is not among the
  sources), a lifetime fixed at construction and the entry of each key.
\<close>

record 'v RequestCache =
  lifetime :: nat
  entries :: "string \<Rightarrow> 'v entry option"

text \<open>
  Modelled from the spec: \<open>new RequestCache(lifetime)\<close> (RequestCache.ts is not among the
  sources), a cache without entries.
\<close>

definition newRequestCache :: "nat \<Rightarrow> 'v RequestCache" where
  "newRequestCache ttl = \<lparr>lifetime = ttl, entries = (\<lambda>k. None)\<rparr>"

text \<open>
  Modelled from the spec: what a call of \<open>resolve\<close> (section 4.1; RequestCache.ts is not
  among the sources) did for its caller: it served a live value, it started the producer,
  or it joined the producer in flight.
\<close>

datatype 'v resolution = Served 'v | Started | Joined

text \<open>
  Modelled from the spec: the first half of \<open>resolve(key, producer)\<close> of section 4.1
  (RequestCache.ts is not among the sources). A caller arrives at time \<open>now\<close>. A live
  value is served without the producer; a caller finding a pending entry joins it;
  otherwise (no entry, or an expired one, evicted now) the producer is started and the
  caller is its first waiter.
\<close>

definition resolve ::
    "nat \<Rightarrow> string \<Rightarrow> nat \<Rightarrow> 'v RequestCache \<Rightarrow> 'v resolution \<times> 'v RequestCache" where
  "resolve now key caller c =
     (case entries c key of
        Some (Ready v expiresAt) \<Rightarrow>
          if now < expiresAt then (Served v, c)
          else (Started, c\<lparr>entries := (entries c)(key \<mapsto> Pending [caller])\<rparr>)
      | Some (Pending waiters) \<Rightarrow>
          (Joined, c\<lparr>entries := (entries c)(key \<mapsto> Pending (waiters @ [caller]))\<rparr>)
      | None \<Rightarrow> (Started, c\<lparr>entries := (entries c)(key \<mapsto> Pending [caller])\<rparr>))"

text \<open>
  Modelled from the spec: the second half of \<open>resolve(key, producer)\<close> of section 4.1
  (RequestCache.ts is not among the sources). The producer of \<open>key\<close> settles at time
  \<open>now\<close>. Every waiter gets the outcome; a value is stored with its expiry \<open>now + TTL\<close>,
  a failure clears the entry.
\<close>

definition settle ::
    "nat \<Rightarrow> string \<Rightarrow> error + 'v \<Rightarrow> 'v RequestCache
       \<Rightarrow> (nat \<times> (error + 'v)) list \<times> 'v RequestCache" where
  "settle now key outcome c =
     (case entries c key of
        Some (Pending waiters) \<Rightarrow>
          (map (\<lambda>w. (w, outcome)) waiters,
           case outcome of
             Inr v \<Rightarrow> c\<lparr>entries := (entries c)(key \<mapsto> Ready v (now + lifetime c))\<rparr>
           | Inl e \<Rightarrow> c\<lparr>entries := (entries c)(key := None)\<rparr>)
      | Some (Ready v expiresAt) \<Rightarrow> ([], c)
      | None \<Rightarrow> ([], c))"

text \<open>
  Modelled from the spec: concurrent callers of the cache (section 5: tasks that suspend at
  the producer; RequestCache.ts is not among the sources). A batch of calls
  \<open>(now, key, caller)\<close>, none of which is preceded by a settling producer: what each call
  did, in order, and the cache afterwards.
\<close>

fun resolveAll ::
    "(nat \<times> string \<times> nat) list \<Rightarrow> 'v RequestCache
       \<Rightarrow> (string \<times> 'v resolution) list \<times> 'v RequestCache" where
  "resolveAll [] c = ([], c)"
| "resolveAll ((now, key, caller) # calls) c =
     (case resolve now key caller c of
        (r, c1) \<Rightarrow> (case resolveAll calls c1 of (rs, c2) \<Rightarrow> ((key, r) # rs, c2)))"

text \<open>
  Modelled from the spec: a key without a live value and without a producer in flight
  (section 4.1; RequestCache.ts is not among the sources). Its entry is missing or expired,
  and the next call starts the producer.
\<close>

definition cold :: "nat \<Rightarrow> string \<Rightarrow> 'v RequestCache \<Rightarrow> bool" where
  "cold now key c =
     (case entries c key of
        None \<Rightarrow> True
      | Some (Pending waiters) \<Rightarrow> False
      | Some (Ready v expiresAt) \<Rightarrow> expiresAt \<le> now)"

section \<open>RoleVerifier\<close>

type_synonym UserMeetingRole = string

text \<open>
  The two methods of \<open>TeamsLiveAPI\<close> that the verifier calls resolve to an array of roles
  or to something that is not an array (\<open>undefined\<close>), or they reject.
\<close>

datatype api_event =
    ApiRegisterClientId string "UserMeetingRole list option reply"
  | ApiGetClientRoles string "UserMeetingRole list option reply"
  | Sleep nat

text \<open>The clock, in milliseconds, and the calls made so far.\<close>

record world =
  now :: nat
  calls :: "api_event list"

record TeamsLiveAPI =
  apiRegisterClientId :: "world \<Rightarrow> string \<Rightarrow> UserMeetingRole list option reply"
  apiGetClientRoles :: "world \<Rightarrow> string \<Rightarrow> UserMeetingRole list option reply"

record RoleVerifier =
  registerRequestCache :: "UserMeetingRole list RequestCache"
  getRequestCache :: "UserMeetingRole list RequestCache"
  world :: world

definition EXPONENTIAL_BACKOFF_SCHEDULE :: "nat list" where
  "EXPONENTIAL_BACKOFF_SCHEDULE = [100, 200, 200, 400, 600]"

definition CACHE_LIFETIME :: nat where
  "CACHE_LIFETIME = 60 * 60 * 1000"

definition newRoleVerifier :: "world \<Rightarrow> RoleVerifier" where
  "newRoleVerifier w =
     \<lparr>registerRequestCache = newRequestCache CACHE_LIFETIME,
      getRequestCache = newRequestCache CACHE_LIFETIME,
      world = w\<rparr>"

text \<open>The timer: the clock advances and the wait is recorded.\<close>

definition sleep :: "nat \<Rightarrow> world \<Rightarrow> world" where
  "sleep d w = w\<lparr>now := now w + d, calls := calls w @ [Sleep d]\<rparr>"

text \<open>A rejected call of the API surfaces as an upstream failure with the same message.\<close>

fun upstream :: "'a reply \<Rightarrow> error + 'a" where
  "upstream (Inl msg) = Inl (UpstreamFailure msg)"
| "upstream (Inr v) = Inr v"

definition callRegisterClientId ::
    "TeamsLiveAPI \<Rightarrow> string \<Rightarrow> world \<Rightarrow> (error + UserMeetingRole list option) \<times> world" where
  "callRegisterClientId api clientId w =
     (let r = apiRegisterClientId api w clientId
      in (upstream r, w\<lparr>calls := calls w @ [ApiRegisterClientId clientId r]\<rparr>))"

definition callGetClientRoles ::
    "TeamsLiveAPI \<Rightarrow> string \<Rightarrow> world \<Rightarrow> (error + UserMeetingRole list option) \<times> world" where
  "callGetClientRoles api clientId w =
     (let r = apiGetClientRoles api w clientId
      in (upstream r, w\<lparr>calls := calls w @ [ApiGetClientRoles clientId r]\<rparr>))"

text \<open>\<open>Array.isArray(result)\<close>: an array, possibly empty.\<close>

fun isArray :: "'a list option \<Rightarrow> bool" where
  "isArray None = False"
| "isArray (Some xs) = True"

text \<open>
  The result of a poll as the value of type \<open>UserMeetingRole[]\<close> that the cache is declared
  to hold. A poll only returns what \<open>Array.isArray\<close> accepted, so the middle case does not
  arise (lemma \<open>poll_accepted\<close> below).
\<close>

fun asRoles ::
    "(error + UserMeetingRole list option) \<times> world \<times> 'e
       \<Rightarrow> (error + UserMeetingRole list) \<times> world" where
  "asRoles (Inl e, w, evs) = (Inl e, w)"
| "asRoles (Inr None, w, evs) = (Inl (UpstreamFailure ''not an array''), w)"
| "asRoles (Inr (Some roles), w, evs) = (Inr roles, w)"

text \<open>
  Modelled from the spec: \<open>cacheRequest(key, producer)\<close> of RequestCache.ts, which is not
  among the sources (the spec's \<open>resolve\<close>, section 4.1), for one caller that awaits the
  answer before anything else happens: the call, the producer if the call started it, and
  its settling. A caller that joins a producer already in flight gets that producer's
  outcome when it settles, which this sequential reading cannot tell: \<open>None\<close>.
\<close>

definition cacheRequest ::
    "string \<Rightarrow> (world \<Rightarrow> (error + 'v) \<times> world) \<Rightarrow> 'v RequestCache \<Rightarrow> world
       \<Rightarrow> ((error + 'v) \<times> 'v RequestCache \<times> world) option" where
  "cacheRequest key producer c w =
     (case resolve (now w) key 0 c of
        (Served v, c1) \<Rightarrow> Some (Inr v, c1, w)
      | (Joined, c1) \<Rightarrow> None
      | (Started, c1) \<Rightarrow>
          (case producer w of
             (outcome, w1) \<Rightarrow> Some (outcome, snd (settle (now w1) key outcome c1), w1)))"

text \<open>
  \<^verbatim>\<open>
  public async registerClientId(clientId: string): Promise<UserMeetingRole[]> {
      return this._registerRequestCache.cacheRequest(clientId, () => {
          return waitForResult(async () => {
              return await this.api.registerClientId(clientId);
          }, (result) => {
              return Array.isArray(result);
          }, () => {
              return new Error(`RoleVerifier: timed out registering local client ID`);
          }, EXPONENTIAL_BACKOFF_SCHEDULE);
      });
  }
  \<close>
\<close>

definition registerClientId ::
    "TeamsLiveAPI \<Rightarrow> string \<Rightarrow> RoleVerifier
       \<Rightarrow> ((error + UserMeetingRole list) \<times> RoleVerifier) option" where
  "registerClientId api clientId rv =
     (case cacheRequest clientId
             (\<lambda>w. asRoles (waitForResult (callRegisterClientId api clientId) isArray
                     (\<lambda>u. Timeout ''RoleVerifier: timed out registering local client ID'')
                     sleep EXPONENTIAL_BACKOFF_SCHEDULE w))
             (registerRequestCache rv) (world rv) of
        None \<Rightarrow> None
      | Some (outcome, c, w) \<Rightarrow> Some (outcome, rv\<lparr>registerRequestCache := c, world := w\<rparr>))"

text \<open>
  \<^verbatim>\<open>
  public async getClientRoles(clientId: string): Promise<UserMeetingRole[]> {
      if (!clientId) {
          throw new Error(`RoleVerifier: called getCLientRoles() without a clientId`);
      }
      return this._getRequestCache.cacheRequest(clientId, () => {
          return waitForResult(async () => {
              return await this.api.getClientRoles(clientId);
          }, (result) => {
              return Array.isArray(result);
          }, () => {
              return new Error(`RoleVerifier: timed out getting roles for a remote client ID`);
          }, EXPONENTIAL_BACKOFF_SCHEDULE);
      });
  }
  \<close>
\<close>

definition getClientRoles ::
    "TeamsLiveAPI \<Rightarrow> string \<Rightarrow> RoleVerifier
       \<Rightarrow> ((error + UserMeetingRole list) \<times> RoleVerifier) option" where
  "getClientRoles api clientId rv =
     (if clientId = [] then
        Some (Inl (InvalidArgument
                ''RoleVerifier: called getCLientRoles() without a clientId''), rv)
      else
        (case cacheRequest clientId
                (\<lambda>w. asRoles (waitForResult (callGetClientRoles api clientId) isArray
                        (\<lambda>u. Timeout
                           ''RoleVerifier: timed out getting roles for a remote client ID'')
                        sleep EXPONENTIAL_BACKOFF_SCHEDULE w))
                (getRequestCache rv) (world rv) of
           None \<Rightarrow> None
         | Some (outcome, c, w) \<Rightarrow> Some (outcome, rv\<lparr>getRequestCache := c, world := w\<rparr>)))"

text \<open>\<open>Array.prototype.indexOf\<close>: the first index holding the value, or \<open>-1\<close>.\<close>

fun indexOf :: "'a list \<Rightarrow> 'a \<Rightarrow> int" where
  "indexOf [] x = -1"
| "indexOf (y # ys) x =
     (if y = x then 0 else (let i = indexOf ys x in if i < 0 then -1 else i + 1))"

text \<open>
  The loop of \<open>verifyRolesAllowed\<close>:
  \<^verbatim>\<open>
  for (let i = 0; i < allowedRoles.length; i++) {
      const role = allowedRoles[i];
      if (roles.indexOf(role) >= 0) { return true; }
  }
  return false;
  \<close>
\<close>

fun anyRoleAllowed :: "UserMeetingRole list \<Rightarrow> UserMeetingRole list \<Rightarrow> bool" where
  "anyRoleAllowed roles [] = False"
| "anyRoleAllowed roles (role # allowedRoles) =
     (if indexOf roles role \<ge> 0 then True else anyRoleAllowed roles allowedRoles)"

text \<open>
  \<^verbatim>\<open>
  public async verifyRolesAllowed(clientId: string, allowedRoles: UserMeetingRole[]) {
      if (!clientId) {
          throw new Error(`RoleVerifier: called verifyRolesAllowed() without a clientId`);
      }
      if (Array.isArray(allowedRoles) && allowedRoles.length > 0) {
          const roles = await this.getClientRoles(clientId);
          ... the loop ...
      }
      return true;
  }
  \<close>
  \<open>allowedRoles\<close> is \<open>None\<close> when the caller passes nothing that is an array.
\<close>

definition verifyRolesAllowed ::
    "TeamsLiveAPI \<Rightarrow> string \<Rightarrow> UserMeetingRole list option \<Rightarrow> RoleVerifier
       \<Rightarrow> ((error + bool) \<times> RoleVerifier) option" where
  "verifyRolesAllowed api clientId allowedRoles rv =
     (if clientId = [] then
        Some (Inl (InvalidArgument
                ''RoleVerifier: called verifyRolesAllowed() without a clientId''), rv)
      else
        (case allowedRoles of
           None \<Rightarrow> Some (Inr True, rv)
         | Some allowed \<Rightarrow>
             if length allowed > 0 then
               (case getClientRoles api clientId rv of
                  None \<Rightarrow> None
                | Some (Inl e, rv1) \<Rightarrow> Some (Inl e, rv1)
                | Some (Inr roles, rv1) \<Rightarrow> Some (Inr (anyRoleAllowed roles allowed), rv1))
             else
               Some (Inr True, rv)))"

text \<open>The errors that are not argument checks of the code.\<close>

fun notInvalidArgument :: "error \<Rightarrow> bool" where
  "notInvalidArgument (InvalidArgument m) = False"
| "notInvalidArgument e = True"

text \<open>What a client with a callback does in the lost race above.\<close>

definition lostRaceHistory :: "event list" where
  "lostRaceHistory =
     [GetFluidContainerId (Inr \<lparr>containerState = notFound, containerId = None,
        shouldCreate = True, retryAfter = 0\<rparr>),
      CreateContainer (Inr \<lparr>container = 1, services = 2\<rparr>),
      OnInitializeContainer 1 (Inr ()),
      Attach 1 (Inr ''mine''),
      SetFluidContainerId ''mine'' (Inr False),
      Dispose 1 (Inr ()),
      GetFluidContainerId (Inr \<lparr>containerState = alreadyExists,
        containerId = Some ''winner'', shouldCreate = False, retryAfter = 0\<rparr>),
      GetContainer ''winner'' (Inr \<lparr>container = 7, services = 8\<rparr>)]"

subsection \<open>Example inputs\<close>

text \<open>
  An operation that returns 0, 1, 2, ... on successive invocations, and one that does the
  same but fails on its second invocation. The state is the number of invocations so far.
\<close>

definition countingOperation :: "nat \<Rightarrow> (error + nat) \<times> nat" where
  "countingOperation s = (Inr s, Suc s)"

definition failingOperation :: "nat \<Rightarrow> (error + nat) \<times> nat" where
  "failingOperation s =
     (if s = 1 then (Inl (UpstreamFailure ''boom''), Suc s) else (Inr s, Suc s))"

definition pollTimeout :: "unit \<Rightarrow> error" where
  "pollTimeout u = Timeout ''timed out''"

definition noWait :: "nat \<Rightarrow> nat \<Rightarrow> nat" where
  "noWait d s = s"

text \<open>A service in which every client is a presenter, and a verifier that has done nothing.\<close>

definition presenterApi :: TeamsLiveAPI where
  "presenterApi =
     \<lparr>apiRegisterClientId = (\<lambda>w clientId. Inr (Some [''Presenter''])),
      apiGetClientRoles = (\<lambda>w clientId. Inr (Some [''Presenter'']))\<rparr>"

text \<open>A service that is out of reach: every call is rejected.\<close>

definition failingApi :: TeamsLiveAPI where
  "failingApi =
     \<lparr>apiRegisterClientId = (\<lambda>w clientId. Inl ''offline''),
      apiGetClientRoles = (\<lambda>w clientId. Inl ''offline'')\<rparr>"

definition freshVerifier :: RoleVerifier where
  "freshVerifier = newRoleVerifier \<lparr>now = 0, calls = []\<rparr>"

text \<open>A cache in which caller 7 has started the producer of \<open>''k''\<close>.\<close>

definition pendingCache :: "nat RequestCache" where
  "pendingCache = snd (resolve 0 ''k'' 7 (newRequestCache 1000))"

section \<open>Properties of the join\<close>

subsection \<open>General facts\<close>

lemma created_extend [simp]:
  "created (ContainerAndServices.extend cs (JoinResult.fields b)) = b"
  by (simp add: ContainerAndServices.defs JoinResult.defs)

lemma eachFollowed_skip: "\<not> P e \<Longrightarrow> eachFollowed P Q (e # es) = eachFollowed P Q es"
  by (cases es) auto

lemma eachFollowed_tail: "eachFollowed P Q (e # es) \<Longrightarrow> eachFollowed P Q es"
  by (cases es) auto

lemma eachFollowed_decomp:
  "eachFollowed P Q (pre @ e # post) \<Longrightarrow> P e \<Longrightarrow> \<exists>d post'. post = d # post' \<and> Q e d"
proof (induction pre)
  case Nil
  then show ?case by (cases post) auto
next
  case (Cons a pre)
  then show ?case by (auto dest: eachFollowed_tail)
qed

lemma eachPreceded_mono: "eachPreceded P Q None evs \<Longrightarrow> eachPreceded P Q prev evs"
  by (cases evs) auto

lemma eachPreceded_decomp:
  "eachPreceded P Q prev (pre @ e # post) \<Longrightarrow> P e \<Longrightarrow>
     (if pre = [] then \<exists>d. prev = Some d \<and> Q d e else Q (last pre) e)"
proof (induction pre arbitrary: prev)
  case Nil
  then show ?case by (auto split: option.splits)
next
  case (Cons a pre)
  from Cons.prems have "eachPreceded P Q (Some a) (pre @ e # post)" by simp
  from Cons.IH[OF this \<open>P e\<close>] show ?case by (auto split: if_splits)
qed

text \<open>
  Fuel only bounds the recursion of the model: a call that settles with some fuel settles
  in the same way with more.
\<close>

lemma create_more_fuel:
  assumes IH: "\<And>h tries t r. getOrCreateContainer fuel env maxTries h tries t = Some r
      \<Longrightarrow> getOrCreateContainer (fuel + k) env maxTries h tries t = Some r"
  shows "createNewContainer fuel env maxTries h tries t = Some r
      \<Longrightarrow> createNewContainer (fuel + k) env maxTries h tries t = Some r"
  by (auto simp: Let_def split: sum.splits prod.splits if_splits dest: IH)

lemma more_fuel:
  "getOrCreateContainer fuel env maxTries h tries t = Some r
     \<Longrightarrow> getOrCreateContainer (fuel + k) env maxTries h tries t = Some r"
proof (induction fuel arbitrary: h tries t r)
  case 0
  then show ?case by simp
next
  case (Suc fuel)
  have cr: "createNewContainer (fuel + k) env maxTries h tries t = Some r"
    if "createNewContainer fuel env maxTries h tries t = Some r" for h tries t r
    using create_more_fuel[of fuel env maxTries k h tries t r] Suc.IH that by blast
  from Suc.prems show ?case
    by (auto simp: Let_def simp del: createNewContainer.simps
          split: sum.splits option.splits if_splits dest: cr Suc.IH)
qed

subsection \<open>A lookup that never has an answer\<close>

text \<open>
  With a lookup that always answers "nothing yet, ask again in 50 ms", a call that starts
  at \<open>tries \<le> maxContainerLookupTries\<close> times out, and it has then made
  \<open>maxContainerLookupTries - tries + 1\<close> lookups: the comparison \<open>tries < max\<close> lets the
  call with \<open>tries = max\<close> make its lookup before it gives up.
\<close>

lemma pending_lookup_count:
  assumes pend: "\<And>t. \<exists>i. getFluidContainerId env t = Inr i \<and> \<not> shouldCreate i
                   \<and> containerId i = None \<and> retryAfter i = 50"
  shows "tries \<le> maxTries \<Longrightarrow> nat (maxTries - tries) < fuel \<Longrightarrow>
     \<exists>t'. getOrCreateContainer fuel env maxTries h tries t
             = Some (Inl (Timeout timeout_message), t')
        \<and> lookups t' = lookups t + nat (maxTries - tries) + 1"
proof (induction fuel arbitrary: tries t)
  case 0
  then show ?case by simp
next
  case (Suc fuel)
  obtain i where i: "getFluidContainerId env t = Inr i" "\<not> shouldCreate i"
      "containerId i = None" "retryAfter i = 50"
    using pend[of t] by blast
  show ?case
  proof (cases "tries < maxTries")
    case True
    with Suc.prems have "tries + 1 \<le> maxTries" "nat (maxTries - (tries + 1)) < fuel"
      by auto
    from Suc.IH[OF this, of "t @ [GetFluidContainerId (Inr i), Wait 50]"] True i Suc.prems
    show ?thesis by (auto simp: Let_def lookups_def)
  next
    case False
    with i Suc.prems show ?thesis by (auto simp: Let_def lookups_def)
  qed
qed

text \<open>
  Claim C1: against a lookup collaborator that always reports \<open>shouldCreate = false\<close>, no
  \<open>containerId\<close> and \<open>retryAfter = 50\<close>, the join fails with the timeout error and the
  lookup collaborator is invoked exactly \<open>maxContainerLookupTries\<close> times (3 by default).
  The join does fail with the timeout error, but with the default of 3 the code invokes
  the lookup collaborator 4 times, once more than the field's documentation ("number of
  times the client should attempt to get the ID of the container") allows.
\<close>

theorem pending_join_makes_four_lookups:
  "map_option (\<lambda>(out, t). (out, lookups t))
     (getOrCreateContainer (Suc (Suc (Suc (Suc 0)))) pendingEnv maxContainerLookupTries None 0 [])
   = Some (Inl (Timeout timeout_message), 4)"
  by (simp add: pendingEnv_def pendingInfo_def maxContainerLookupTries_def
        lookups_def Let_def)

subsection \<open>How a settled call ends\<close>









subsection \<open>A lost race\<close>

lemma throwEnds_skip:
  "thrown e = None \<Longrightarrow> throwEnds thrown out (e # es) = throwEnds thrown out es"
  by (cases es) auto

lemma throwEnds_decomp:
  "throwEnds thrown out (pre @ e # post) \<Longrightarrow> thrown e = Some msg
     \<Longrightarrow> post = [] \<and> out = Inl (UpstreamFailure msg)"
proof (induction pre)
  case Nil
  then show ?case by (cases post) auto
next
  case (Cons a pre)
  then show ?case by (cases "pre @ e # post") auto
qed

lemma create_unwinds:
  assumes IH: "\<And>h tries t out t'.
      getOrCreateContainer fuel env maxTries h tries t = Some (out, t')
      \<Longrightarrow> \<exists>r evs. t' = t @ GetFluidContainerId r # evs \<and> unwinds out evs"
  shows "createNewContainer fuel env maxTries h tries t = Some (out, t')
      \<Longrightarrow> \<exists>evs. t' = t @ evs \<and> unwinds out evs"
  apply (auto simp: Let_def runHook_def
      split: sum.splits option.splits prod.splits if_splits dest!: IH)
      apply (auto simp: unwinds_def eachFollowed_skip throwEnds_skip)
  done

lemma lookup_unwinds:
  "getOrCreateContainer fuel env maxTries h tries t = Some (out, t')
     \<Longrightarrow> \<exists>r evs. t' = t @ GetFluidContainerId r # evs \<and> unwinds out evs"
proof (induction fuel arbitrary: h tries t out t')
  case 0
  then show ?case by simp
next
  case (Suc fuel)
  have cr: "\<exists>evs. t' = t @ evs \<and> unwinds out evs"
    if "createNewContainer fuel env maxTries h tries t = Some (out, t')" for h tries t out t'
    using create_unwinds[of fuel env maxTries h tries t out t'] Suc.IH that by blast
  from Suc.prems show ?case
    apply (auto simp: Let_def simp del: createNewContainer.simps
        split: sum.splits option.splits if_splits dest!: cr Suc.IH)
           apply (auto simp: unwinds_def eachFollowed_skip throwEnds_skip)
    done
qed

text \<open>
  Claim C3, as the code has it: for every creation attempt whose conditional publish
  returns false (a lost race), the coordinator calls \<open>dispose\<close> on the container it
  created. When \<open>dispose\<close> returns, the attempt continues as the lookup with \<open>tries + 1\<close>,
  and its outcome is whatever that lookup gives: the lost race itself is no error. When
  \<open>dispose\<close> throws, the attempt fails with that failure and makes no further lookup. The
  first two parts state this for one creation attempt; the third states it for every
  refused publish in a settled call: it is directly followed by \<open>dispose\<close>, and then either
  by a new lookup, or by nothing when \<open>dispose\<close> threw, the call failing with its message.
\<close>

theorem lost_race_unwinds:
  "(createContainer env t = Inr cs
      \<and> runHook h (t @ [CreateContainer (Inr cs)]) (container cs) = (Inr (), t2)
      \<and> attach env t2 (container cs) = Inr newContainerId
      \<and> setFluidContainerId env (t2 @ [Attach (container cs) (Inr newContainerId)])
            newContainerId = Inr False
      \<and> dispose env (t2 @ [Attach (container cs) (Inr newContainerId),
                           SetFluidContainerId newContainerId (Inr False)])
            (container cs) = Inr ()
    \<longrightarrow> createNewContainer fuel env maxTries h tries t =
          getOrCreateContainer fuel env maxTries h (tries + 1)
            (t2 @ [Attach (container cs) (Inr newContainerId),
                   SetFluidContainerId newContainerId (Inr False),
                   Dispose (container cs) (Inr ())]))
   \<and> (createContainer env t = Inr cs
      \<and> runHook h (t @ [CreateContainer (Inr cs)]) (container cs) = (Inr (), t2)
      \<and> attach env t2 (container cs) = Inr newContainerId
      \<and> setFluidContainerId env (t2 @ [Attach (container cs) (Inr newContainerId)])
            newContainerId = Inr False
      \<and> dispose env (t2 @ [Attach (container cs) (Inr newContainerId),
                           SetFluidContainerId newContainerId (Inr False)])
            (container cs) = Inl msg
    \<longrightarrow> createNewContainer fuel env maxTries h tries t =
          Some (Inl (UpstreamFailure msg),
            t2 @ [Attach (container cs) (Inr newContainerId),
                  SetFluidContainerId newContainerId (Inr False),
                  Dispose (container cs) (Inl msg)]))
   \<and> (\<forall>out t' pre i post.
         getOrCreateContainer fuel env maxTries h tries t = Some (out, t')
         \<and> drop (length t) t' = pre @ SetFluidContainerId i (Inr False) # post
       \<longrightarrow> (\<exists>c. (\<exists>r post'. post = Dispose c (Inr ()) # GetFluidContainerId r # post')
              \<or> (\<exists>m. post = [Dispose c (Inl m)] \<and> out = Inl (UpstreamFailure m))))"
proof (intro conjI allI impI)
  assume "createContainer env t = Inr cs
      \<and> runHook h (t @ [CreateContainer (Inr cs)]) (container cs) = (Inr (), t2)
      \<and> attach env t2 (container cs) = Inr newContainerId
      \<and> setFluidContainerId env (t2 @ [Attach (container cs) (Inr newContainerId)])
            newContainerId = Inr False
      \<and> dispose env (t2 @ [Attach (container cs) (Inr newContainerId),
                           SetFluidContainerId newContainerId (Inr False)])
            (container cs) = Inr ()"
  then show "createNewContainer fuel env maxTries h tries t =
          getOrCreateContainer fuel env maxTries h (tries + 1)
            (t2 @ [Attach (container cs) (Inr newContainerId),
                   SetFluidContainerId newContainerId (Inr False),
                   Dispose (container cs) (Inr ())])"
    by (simp add: Let_def)
next
  assume "createContainer env t = Inr cs
      \<and> runHook h (t @ [CreateContainer (Inr cs)]) (container cs) = (Inr (), t2)
      \<and> attach env t2 (container cs) = Inr newContainerId
      \<and> setFluidContainerId env (t2 @ [Attach (container cs) (Inr newContainerId)])
            newContainerId = Inr False
      \<and> dispose env (t2 @ [Attach (container cs) (Inr newContainerId),
                           SetFluidContainerId newContainerId (Inr False)])
            (container cs) = Inl msg"
  then show "createNewContainer fuel env maxTries h tries t =
          Some (Inl (UpstreamFailure msg),
            t2 @ [Attach (container cs) (Inr newContainerId),
                  SetFluidContainerId newContainerId (Inr False),
                  Dispose (container cs) (Inl msg)])"
    by (simp add: Let_def)
next
  fix out t' pre i post
  assume a: "getOrCreateContainer fuel env maxTries h tries t = Some (out, t')
         \<and> drop (length t) t' = pre @ SetFluidContainerId i (Inr False) # post"
  with lookup_unwinds[of fuel env maxTries h tries t out t'] obtain r evs where
    evs: "t' = t @ GetFluidContainerId r # evs" "unwinds out evs" by blast
  with a have "GetFluidContainerId r # evs = pre @ SetFluidContainerId i (Inr False) # post"
    by simp
  then obtain pre1 where p1: "evs = pre1 @ SetFluidContainerId i (Inr False) # post"
    by (cases pre) auto
  from evs(2) have f1: "eachFollowed isLostRace (\<lambda>e d. isDispose d) evs"
    and f2: "eachFollowed isDisposed (\<lambda>e d. isLookup d) evs"
    and f3: "throwEnds disposeThrew out evs"
    by (auto simp: unwinds_def)
  from eachFollowed_decomp[of isLostRace "\<lambda>e d. isDispose d" pre1
         "SetFluidContainerId i (Inr False)" post] f1 p1
  obtain d post1 where d: "post = d # post1" "isDispose d" by auto
  then obtain c rep where c: "d = Dispose c rep" by (cases d) auto
  from p1 d c have e2: "evs = (pre1 @ [SetFluidContainerId i (Inr False)]) @ Dispose c rep # post1"
    by simp
  show "\<exists>c. (\<exists>r post'. post = Dispose c (Inr ()) # GetFluidContainerId r # post')
          \<or> (\<exists>m. post = [Dispose c (Inl m)] \<and> out = Inl (UpstreamFailure m))"
  proof (cases rep)
    case (Inr u)
    from eachFollowed_decomp[of isDisposed "\<lambda>e d. isLookup d"
           "pre1 @ [SetFluidContainerId i (Inr False)]" "Dispose c rep" post1] f2 e2 Inr
    obtain d2 post2 where d2: "post1 = d2 # post2" "isLookup d2" by auto
    then obtain r2 where "d2 = GetFluidContainerId r2" by (cases d2) auto
    with d c d2 Inr show ?thesis by auto
  next
    case (Inl m)
    from throwEnds_decomp[of disposeThrew out "pre1 @ [SetFluidContainerId i (Inr False)]"
           "Dispose c rep" post1 m] f3 e2 Inl
    have "post1 = []" "out = Inl (UpstreamFailure m)" by auto
    with d c Inl show ?thesis by auto
  qed
qed

text \<open>
  The claim as it was stated fails where \<open>dispose\<close> throws: the publish returned false, and
  the join is rejected with the failure of \<open>dispose\<close> after a single lookup, instead of
  returning to the lookup.
\<close>

theorem lost_race_dispose_throws:
  "setFluidContainerId disposeFailsEnv
      [GetFluidContainerId (Inr \<lparr>containerState = notFound, containerId = None,
         shouldCreate = True, retryAfter = 0\<rparr>),
       CreateContainer (Inr \<lparr>container = 1, services = 2\<rparr>),
       Attach 1 (Inr ''mine'')] ''mine'' = Inr False
   \<and> getOrCreateContainer (Suc (Suc (Suc 0))) disposeFailsEnv 3 None 0 []
       = Some (Inl (UpstreamFailure ''dispose failed''),
           [GetFluidContainerId (Inr \<lparr>containerState = notFound, containerId = None,
              shouldCreate = True, retryAfter = 0\<rparr>),
            CreateContainer (Inr \<lparr>container = 1, services = 2\<rparr>),
            Attach 1 (Inr ''mine''),
            SetFluidContainerId ''mine'' (Inr False),
            Dispose 1 (Inl ''dispose failed'')])
   \<and> lookups
        [GetFluidContainerId (Inr \<lparr>containerState = notFound, containerId = None,
           shouldCreate = True, retryAfter = 0\<rparr>),
         CreateContainer (Inr \<lparr>container = 1, services = 2\<rparr>),
         Attach 1 (Inr ''mine''),
         SetFluidContainerId ''mine'' (Inr False),
         Dispose 1 (Inl ''dispose failed'')] = 1"
  by (simp add: disposeFailsEnv_def lostRaceEnv_def Let_def runHook_def lookups_def)

theorem lost_race_unwinds_witness:
  "createNewContainer (Suc 0) lostRaceEnv 3 None 0 [Wait 0]
       = getOrCreateContainer (Suc 0) lostRaceEnv 3 None 1
           [Wait 0, CreateContainer (Inr \<lparr>container = 1, services = 2\<rparr>),
            Attach 1 (Inr ''mine''), SetFluidContainerId ''mine'' (Inr False),
            Dispose 1 (Inr ())]
   \<and> map_option fst (createNewContainer (Suc 0) lostRaceEnv 3 None 0 [Wait 0])
       = Some (Inr \<lparr>container = 7, services = 8, created = False\<rparr>)
   \<and> createNewContainer (Suc 0) disposeFailsEnv 3 None 0 [Wait 0]
       = Some (Inl (UpstreamFailure ''dispose failed''),
           [Wait 0, CreateContainer (Inr \<lparr>container = 1, services = 2\<rparr>),
            Attach 1 (Inr ''mine''), SetFluidContainerId ''mine'' (Inr False),
            Dispose 1 (Inl ''dispose failed'')])
   \<and> getOrCreateContainer (Suc (Suc 0)) lostRaceEnv 3 (Some okHook) 0 []
       = Some (Inr \<lparr>container = 7, services = 8, created = False\<rparr>, lostRaceHistory)
   \<and> lostRaceHistory
       = take 4 lostRaceHistory @ SetFluidContainerId ''mine'' (Inr False) # drop 5 lostRaceHistory
   \<and> (\<exists>c r post'. drop 5 lostRaceHistory
          = Dispose c (Inr ()) # GetFluidContainerId r # post')"
proof -
  let ?cs = "\<lparr>container = 1, services = 2\<rparr>"
  let ?t2 = "[Wait 0, CreateContainer (Inr ?cs)]"
  have h1: "createContainer lostRaceEnv [Wait 0] = Inr ?cs
     \<and> runHook None ([Wait 0] @ [CreateContainer (Inr ?cs)]) (container ?cs) = (Inr (), ?t2)
     \<and> attach lostRaceEnv ?t2 (container ?cs) = Inr ''mine''
     \<and> setFluidContainerId lostRaceEnv (?t2 @ [Attach (container ?cs) (Inr ''mine'')])
         ''mine'' = Inr False
     \<and> dispose lostRaceEnv (?t2 @ [Attach (container ?cs) (Inr ''mine''),
           SetFluidContainerId ''mine'' (Inr False)]) (container ?cs) = Inr ()"
    by (simp add: lostRaceEnv_def runHook_def)
  have h2: "createContainer disposeFailsEnv [Wait 0] = Inr ?cs
     \<and> runHook None ([Wait 0] @ [CreateContainer (Inr ?cs)]) (container ?cs) = (Inr (), ?t2)
     \<and> attach disposeFailsEnv ?t2 (container ?cs) = Inr ''mine''
     \<and> setFluidContainerId disposeFailsEnv (?t2 @ [Attach (container ?cs) (Inr ''mine'')])
         ''mine'' = Inr False
     \<and> dispose disposeFailsEnv (?t2 @ [Attach (container ?cs) (Inr ''mine''),
           SetFluidContainerId ''mine'' (Inr False)]) (container ?cs) = Inl ''dispose failed''"
    by (simp add: disposeFailsEnv_def lostRaceEnv_def runHook_def)
  from lost_race_unwinds[where env = lostRaceEnv and t = "[Wait 0]" and cs = ?cs
      and h = None and ?t2.0 = ?t2 and newContainerId = "''mine''" and fuel = "Suc 0"
      and maxTries = 3 and tries = 0, THEN conjunct1, rule_format, OF h1]
  have e1: "createNewContainer (Suc 0) lostRaceEnv 3 None 0 [Wait 0]
       = getOrCreateContainer (Suc 0) lostRaceEnv 3 None 1
           [Wait 0, CreateContainer (Inr ?cs), Attach 1 (Inr ''mine''),
            SetFluidContainerId ''mine'' (Inr False), Dispose 1 (Inr ())]"
    by simp
  from lost_race_unwinds[where env = disposeFailsEnv and t = "[Wait 0]" and cs = ?cs
      and h = None and ?t2.0 = ?t2 and newContainerId = "''mine''" and fuel = "Suc 0"
      and maxTries = 3 and tries = 0 and msg = "''dispose failed''",
      THEN conjunct2, THEN conjunct1, rule_format, OF h2]
  have e2: "createNewContainer (Suc 0) disposeFailsEnv 3 None 0 [Wait 0]
       = Some (Inl (UpstreamFailure ''dispose failed''),
           [Wait 0, CreateContainer (Inr ?cs), Attach 1 (Inr ''mine''),
            SetFluidContainerId ''mine'' (Inr False), Dispose 1 (Inl ''dispose failed'')])"
    by simp
  have v: "map_option fst (getOrCreateContainer (Suc 0) lostRaceEnv 3 None 1
           [Wait 0, CreateContainer (Inr ?cs), Attach 1 (Inr ''mine''),
            SetFluidContainerId ''mine'' (Inr False), Dispose 1 (Inr ())])
       = Some (Inr \<lparr>container = 7, services = 8, created = False\<rparr>)"
    by (simp add: lostRaceEnv_def Let_def ContainerAndServices.defs JoinResult.defs)
  with e1 have v1: "map_option fst (createNewContainer (Suc 0) lostRaceEnv 3 None 0 [Wait 0])
       = Some (Inr \<lparr>container = 7, services = 8, created = False\<rparr>)"
    by simp
  have run: "getOrCreateContainer (Suc (Suc 0)) lostRaceEnv 3 (Some okHook) 0 []
     = Some (Inr \<lparr>container = 7, services = 8, created = False\<rparr>, lostRaceHistory)"
    by (simp add: lostRaceEnv_def okHook_def lostRaceHistory_def Let_def runHook_def
          ContainerAndServices.defs JoinResult.defs)
  have d: "lostRaceHistory
     = take 4 lostRaceHistory @ SetFluidContainerId ''mine'' (Inr False) # drop 5 lostRaceHistory"
    by (simp add: lostRaceHistory_def)
  from run d have rd: "getOrCreateContainer (Suc (Suc 0)) lostRaceEnv 3 (Some okHook) 0 []
     = Some (Inr \<lparr>container = 7, services = 8, created = False\<rparr>, lostRaceHistory)
   \<and> drop (length ([] :: event list)) lostRaceHistory
     = take 4 lostRaceHistory @ SetFluidContainerId ''mine'' (Inr False) # drop 5 lostRaceHistory"
    by simp
  from lost_race_unwinds[where fuel = "Suc (Suc 0)" and env = lostRaceEnv and maxTries = 3
      and h = "Some okHook" and tries = 0 and t = "[]",
      THEN conjunct2, THEN conjunct2, rule_format, OF rd]
  have w: "\<exists>c. (\<exists>r post'. drop 5 lostRaceHistory
                = Dispose c (Inr ()) # GetFluidContainerId r # post')
          \<or> (\<exists>m. drop 5 lostRaceHistory = [Dispose c (Inl m)]
                \<and> (Inr \<lparr>container = 7, services = 8, created = False\<rparr>
                       :: error + JoinResult) = Inl (UpstreamFailure m))" .
  then have w': "\<exists>c r post'. drop 5 lostRaceHistory
          = Dispose c (Inr ()) # GetFluidContainerId r # post'"
    by auto
  from e1 v1 e2 run d w' show ?thesis by (intro conjI)
qed

subsection \<open>The first-creation callback\<close>

lemma hookRuns_decomp:
  "hookRuns f t (pre @ OnInitializeContainer c r # post) \<Longrightarrow> r = f (t @ pre) c"
proof (induction pre arbitrary: t)
  case Nil
  then show ?case by simp
next
  case (Cons a pre)
  from Cons.prems have "hookRuns f (t @ [a]) (pre @ OnInitializeContainer c r # post)"
    by (cases a) auto
  from Cons.IH[OF this] show ?case by simp
qed

lemma create_disciplined:
  assumes IH: "\<And>tries t out t'.
      getOrCreateContainer fuel env maxTries (Some f) tries t = Some (out, t')
      \<Longrightarrow> \<exists>evs. t' = t @ evs \<and> disciplined evs \<and> hookRuns f t evs
            \<and> throwEnds hookThrew out evs"
  shows "createNewContainer fuel env maxTries (Some f) tries t = Some (out, t')
      \<Longrightarrow> \<exists>evs. t' = t @ evs \<and> disciplined evs \<and> hookRuns f t evs
            \<and> throwEnds hookThrew out evs"
  apply (auto simp: Let_def runHook_def
      split: sum.splits option.splits prod.splits if_splits dest!: IH)
       apply (auto simp: disciplined_def eachFollowed_skip eachPreceded_mono throwEnds_skip)
  done

lemma lookup_disciplined:
  "getOrCreateContainer fuel env maxTries (Some f) tries t = Some (out, t')
     \<Longrightarrow> \<exists>evs. t' = t @ evs \<and> disciplined evs \<and> hookRuns f t evs
           \<and> throwEnds hookThrew out evs"
proof (induction fuel arbitrary: tries t out t')
  case 0
  then show ?case by simp
next
  case (Suc fuel)
  have cr: "\<exists>evs. t' = t @ evs \<and> disciplined evs \<and> hookRuns f t evs
            \<and> throwEnds hookThrew out evs"
    if "createNewContainer fuel env maxTries (Some f) tries t = Some (out, t')"
    for tries t out t'
    using create_disciplined[of fuel env maxTries f tries t out t'] Suc.IH that by blast
  from Suc.prems show ?case
    apply (auto simp: Let_def simp del: createNewContainer.simps
        split: sum.splits option.splits if_splits dest!: cr Suc.IH)
           apply (auto simp: disciplined_def eachFollowed_skip eachPreceded_mono
        throwEnds_skip)
    done
qed

text \<open>
  Claim C9: in every execution of the creation branch, the optional first-creation
  callback is run on the container just created exactly once, and strictly before the
  container is attached to the service. In the events a settled call with the callback \<open>f\<close>
  added to the history: every successful \<open>createContainer\<close> is directly followed by the
  run of \<open>f\<close> on the container it returned, recorded with what \<open>f\<close> gives there; every
  recorded run directly follows such a creation and carries the result of \<open>f\<close>; a run in
  which \<open>f\<close> throws ends the call with that failure, before any attach; and every \<open>attach\<close>
  directly follows a run of the callback on the same container that returned.
\<close>

theorem hook_once_before_attach:
  assumes "getOrCreateContainer fuel env maxTries (Some f) tries t = Some (out, t')"
  shows "(\<forall>pre cs post. drop (length t) t' = pre @ CreateContainer (Inr cs) # post \<longrightarrow>
            (\<exists>post'. post = OnInitializeContainer (container cs)
                (f (t @ pre @ [CreateContainer (Inr cs)]) (container cs)) # post'))
       \<and> (\<forall>pre c r post. drop (length t) t' = pre @ OnInitializeContainer c r # post \<longrightarrow>
            (\<exists>pre' cs. pre = pre' @ [CreateContainer (Inr cs)] \<and> container cs = c)
            \<and> r = f (t @ pre) c)
       \<and> (\<forall>pre c msg post.
            drop (length t) t' = pre @ OnInitializeContainer c (Inl msg) # post \<longrightarrow>
            post = [] \<and> out = Inl (UpstreamFailure msg))
       \<and> (\<forall>pre c a post. drop (length t) t' = pre @ Attach c a # post \<longrightarrow>
            (\<exists>pre'. pre = pre' @ [OnInitializeContainer c (Inr ())]))"
proof -
  from lookup_disciplined[OF assms] obtain evs where
    evs: "t' = t @ evs" "disciplined evs" "hookRuns f t evs" "throwEnds hookThrew out evs"
    by blast
  have 1: "\<exists>post'. post = OnInitializeContainer (container cs)
              (f (t @ pre @ [CreateContainer (Inr cs)]) (container cs)) # post'"
    if "evs = pre @ CreateContainer (Inr cs) # post" for pre cs post
  proof -
    from eachFollowed_decomp[of isCreated hookRunOnCreated pre "CreateContainer (Inr cs)" post]
      that evs(2)
    obtain d post' where d: "post = d # post'" "hookRunOnCreated (CreateContainer (Inr cs)) d"
      by (auto simp: disciplined_def)
    then obtain r where r: "d = OnInitializeContainer (container cs) r" by (cases d) auto
    with that d have "evs = (pre @ [CreateContainer (Inr cs)])
        @ OnInitializeContainer (container cs) r # post'"
      by simp
    with evs(3) have "r = f (t @ pre @ [CreateContainer (Inr cs)]) (container cs)"
      using hookRuns_decomp[of f t "pre @ [CreateContainer (Inr cs)]" "container cs" r post']
      by simp
    with d r show ?thesis by simp
  qed
  have 2: "(\<exists>pre' cs. pre = pre' @ [CreateContainer (Inr cs)] \<and> container cs = c)
      \<and> r = f (t @ pre) c"
    if "evs = pre @ OnInitializeContainer c r # post" for pre c r post
  proof -
    from eachPreceded_decomp[of isHookRun hookRunOnCreated None pre
           "OnInitializeContainer c r" post] that evs(2)
    have "pre \<noteq> []" "hookRunOnCreated (last pre) (OnInitializeContainer c r)"
      by (auto simp: disciplined_def split: if_splits)
    moreover from this(1) obtain pre' where "pre = pre' @ [last pre]"
      by (metis append_butlast_last_id)
    ultimately have "\<exists>pre' cs. pre = pre' @ [CreateContainer (Inr cs)] \<and> container cs = c"
      by (cases "last pre" rule: isCreated.cases) auto
    moreover from that evs(3) have "r = f (t @ pre) c"
      using hookRuns_decomp[of f t pre c r post] by simp
    ultimately show ?thesis by simp
  qed
  have 3: "post = [] \<and> out = Inl (UpstreamFailure msg)"
    if "evs = pre @ OnInitializeContainer c (Inl msg) # post" for pre c msg post
    using throwEnds_decomp[of hookThrew out pre "OnInitializeContainer c (Inl msg)" post msg]
      that evs(4) by simp
  have 4: "\<exists>pre'. pre = pre' @ [OnInitializeContainer c (Inr ())]"
    if "evs = pre @ Attach c a # post" for pre c a post
  proof -
    from eachPreceded_decomp[of isAttach attachAfterHook None pre "Attach c a" post]
      that evs(2)
    have "pre \<noteq> []" "attachAfterHook (last pre) (Attach c a)"
      by (auto simp: disciplined_def split: if_splits)
    moreover from this(1) obtain pre' where "pre = pre' @ [last pre]"
      by (metis append_butlast_last_id)
    ultimately show ?thesis
      by (cases "(last pre, Attach c a)" rule: attachAfterHook.cases) auto
  qed
  from evs(1) 1 2 3 4 show ?thesis by simp
qed

theorem hook_once_before_attach_witness:
  "getOrCreateContainer (Suc (Suc 0)) lostRaceEnv 3 (Some okHook) 0 []
     = Some (Inr \<lparr>container = 7, services = 8, created = False\<rparr>, lostRaceHistory)
   \<and> (\<exists>post'. drop 2 lostRaceHistory
         = OnInitializeContainer 1
             (okHook (take 1 lostRaceHistory
                @ [CreateContainer (Inr \<lparr>container = 1, services = 2\<rparr>)]) 1) # post')
   \<and> (\<exists>pre' cs. take 2 lostRaceHistory = pre' @ [CreateContainer (Inr cs)] \<and> container cs = 1)
   \<and> Inr () = okHook (take 2 lostRaceHistory) 1
   \<and> (\<exists>pre'. take 3 lostRaceHistory = pre' @ [OnInitializeContainer 1 (Inr ())])
   \<and> getOrCreateContainer (Suc 0) firstClientEnv 3 (Some throwingHook) 0 []
     = Some (Inl (UpstreamFailure ''init failed''),
         [GetFluidContainerId (Inr \<lparr>containerState = notFound, containerId = None,
            shouldCreate = True, retryAfter = 0\<rparr>),
          CreateContainer (Inr \<lparr>container = 1, services = 2\<rparr>),
          OnInitializeContainer 1 (Inl ''init failed'')])"
proof -
  have run: "getOrCreateContainer (Suc (Suc 0)) lostRaceEnv 3 (Some okHook) 0 []
     = Some (Inr \<lparr>container = 7, services = 8, created = False\<rparr>, lostRaceHistory)"
    by (simp add: lostRaceEnv_def okHook_def lostRaceHistory_def Let_def runHook_def
          ContainerAndServices.defs JoinResult.defs)
  have c: "drop (length ([] :: event list)) lostRaceHistory
     = take 1 lostRaceHistory
       @ CreateContainer (Inr \<lparr>container = 1, services = 2\<rparr>) # drop 2 lostRaceHistory"
    by (simp add: lostRaceHistory_def)
  have i: "drop (length ([] :: event list)) lostRaceHistory
     = take 2 lostRaceHistory @ OnInitializeContainer 1 (Inr ()) # drop 3 lostRaceHistory"
    by (simp add: lostRaceHistory_def)
  have a: "drop (length ([] :: event list)) lostRaceHistory
     = take 3 lostRaceHistory @ Attach 1 (Inr ''mine'') # drop 4 lostRaceHistory"
    by (simp add: lostRaceHistory_def)
  note inst = hook_once_before_attach[OF run]
  from inst[THEN conjunct1, rule_format, OF c]
  have 1: "\<exists>post'. drop 2 lostRaceHistory
         = OnInitializeContainer 1
             (okHook (take 1 lostRaceHistory
                @ [CreateContainer (Inr \<lparr>container = 1, services = 2\<rparr>)]) 1) # post'"
    by simp
  from inst[THEN conjunct2, THEN conjunct1, rule_format, OF i]
  have 2: "\<exists>pre' cs. take 2 lostRaceHistory = pre' @ [CreateContainer (Inr cs)]
      \<and> container cs = 1"
    and 3: "Inr () = okHook (take 2 lostRaceHistory) 1"
    by simp_all
  from inst[THEN conjunct2, THEN conjunct2, THEN conjunct2, rule_format, OF a]
  have 4: "\<exists>pre'. take 3 lostRaceHistory = pre' @ [OnInitializeContainer 1 (Inr ())]" .
  have run2: "getOrCreateContainer (Suc 0) firstClientEnv 3 (Some throwingHook) 0 []
     = Some (Inl (UpstreamFailure ''init failed''),
         [GetFluidContainerId (Inr \<lparr>containerState = notFound, containerId = None,
            shouldCreate = True, retryAfter = 0\<rparr>),
          CreateContainer (Inr \<lparr>container = 1, services = 2\<rparr>),
          OnInitializeContainer 1 (Inl ''init failed'')])"
    by (simp add: firstClientEnv_def throwingHook_def Let_def runHook_def)
  from run 1 2 3 4 run2 show ?thesis by (intro conjI)
qed

section \<open>Properties of the poller\<close>

text \<open>
  The shape of every poll: at least one attempt and at most one more than the schedule
  has entries; the waits are the first entries of the schedule, one between any two
  attempts; every attempt but the last returned a result that was not accepted; the last
  attempt decides the outcome, and it is the last thing done.
\<close>

lemma poll_shape:
  "waitForResult operation isAcceptable onTimeout wait schedule s = (out, s', evs) \<Longrightarrow>
     attempts evs \<noteq> []
     \<and> length (attempts evs) \<le> length schedule + 1
     \<and> pauses evs = take (length (attempts evs) - 1) schedule
     \<and> (\<forall>r \<in> set (butlast (attempts evs)). \<exists>v. r = Inr v \<and> \<not> isAcceptable v)
     \<and> out = (case last (attempts evs) of
                Inl e \<Rightarrow> Inl e
              | Inr v \<Rightarrow> if isAcceptable v then Inr v else Inl (onTimeout ()))
     \<and> (\<forall>v. last (attempts evs) = Inr v \<and> \<not> isAcceptable v
            \<longrightarrow> length (attempts evs) = length schedule + 1)
     \<and> last evs = Attempt (last (attempts evs))"
proof (induction schedule arbitrary: s out s' evs)
  case Nil
  then show ?case by (auto split: sum.splits prod.splits if_splits)
next
  case (Cons d schedule)
  show ?case
  proof (cases "operation s")
    case (Pair r s1)
    show ?thesis
    proof (cases r)
      case (Inl e)
      with Pair Cons.prems show ?thesis by auto
    next
      case (Inr v)
      show ?thesis
      proof (cases "isAcceptable v")
        case True
        with Inr Pair Cons.prems show ?thesis by auto
      next
        case False
        obtain out2 s2 evs2 where r2:
          "waitForResult operation isAcceptable onTimeout wait schedule (wait d s1)
             = (out2, s2, evs2)"
          by (cases "waitForResult operation isAcceptable onTimeout wait schedule (wait d s1)")
             auto
        from Cons.IH[OF r2] have ne: "attempts evs2 \<noteq> []" by simp
        then have ne2: "evs2 \<noteq> []" by auto
        from False Inr Pair Cons.prems r2
        have evs: "evs = Attempt (Inr v) # Pause d # evs2" "out = out2" by auto
        from ne obtain a as where as: "attempts evs2 = a # as"
          by (cases "attempts evs2") auto
        from Cons.IH[OF r2] evs False as ne2 show ?thesis by auto
      qed
    qed
  qed
qed

lemma attempts_of_operation:
  "waitForResult operation isAcceptable onTimeout wait schedule s = (out, s', evs) \<Longrightarrow>
     r \<in> set (attempts evs) \<Longrightarrow> \<exists>x. r = fst (operation x)"
proof (induction schedule arbitrary: s out s' evs)
  case Nil
  show ?case
  proof (cases "operation s")
    case (Pair r1 s1)
    then have f: "r1 = fst (operation s)" by simp
    from Pair Nil.prems(1) have "attempts evs = [r1]"
      by (auto split: sum.splits if_splits)
    with Nil.prems(2) f show ?thesis by auto
  qed
next
  case (Cons d schedule)
  show ?case
  proof (cases "operation s")
    case (Pair r1 s1)
    then have f: "r1 = fst (operation s)" by simp
    show ?thesis
    proof (cases "\<exists>v. r1 = Inr v \<and> \<not> isAcceptable v")
      case False
      with Pair Cons.prems(1) have "attempts evs = [r1]"
        by (auto split: sum.splits if_splits)
      with Cons.prems(2) f show ?thesis by auto
    next
      case True
      then obtain v where v: "r1 = Inr v" "\<not> isAcceptable v" by blast
      obtain out2 s2 evs2 where r2:
        "waitForResult operation isAcceptable onTimeout wait schedule (wait d s1)
           = (out2, s2, evs2)"
        by (cases "waitForResult operation isAcceptable onTimeout wait schedule (wait d s1)")
           auto
      with v Pair Cons.prems(1) have "attempts evs = r1 # attempts evs2" by auto
      with Cons.prems(2) have "r = r1 \<or> r \<in> set (attempts evs2)" by auto
      with f Cons.IH[OF r2] show ?thesis by blast
    qed
  qed
qed

lemma poll_accepted:
  "waitForResult operation isAcceptable onTimeout wait schedule s = (Inr v, s', evs)
     \<Longrightarrow> isAcceptable v"
  by (induction schedule arbitrary: s s' evs) (auto split: sum.splits prod.splits if_splits)

lemma poll_error_class:
  assumes "\<And>x e. fst (operation x) = Inl e \<Longrightarrow> P e" and "P (onTimeout ())"
  shows "waitForResult operation isAcceptable onTimeout wait schedule s = (Inl e, s', evs)
     \<Longrightarrow> P e"
proof (induction schedule arbitrary: s s' evs)
  case Nil
  with assms(1)[of s] assms(2) show ?case
    by (auto split: sum.splits prod.splits if_splits)
next
  case (Cons d schedule)
  with assms(1)[of s] show ?case
    by (auto split: sum.splits prod.splits if_splits)
qed

text \<open>
  Claim C5: for every schedule, the poller invokes the operation at most
  \<open>schedule.length + 1\<close> times; with a predicate that never accepts (and an operation
  that returns a result each time) it makes exactly \<open>schedule.length\<close> waits, in schedule
  order, and then fails with the error of \<open>onTimeout()\<close>; when the attempt number \<open>n + 1\<close>
  is the accepted one, it is the last attempt, its result is returned, and exactly the
  first \<open>n\<close> waits of the schedule were made.
\<close>

theorem poll_bounded:
  assumes "waitForResult operation isAcceptable onTimeout wait schedule s = (out, s', evs)"
  shows "length (attempts evs) \<le> length schedule + 1
     \<and> ((\<forall>v. \<not> isAcceptable v) \<and> (\<forall>x e. fst (operation x) \<noteq> Inl e) \<longrightarrow>
          out = Inl (onTimeout ()) \<and> pauses evs = schedule
          \<and> length (attempts evs) = length schedule + 1)
     \<and> (\<forall>n v. n < length (attempts evs) \<and> attempts evs ! n = Inr v \<and> isAcceptable v \<longrightarrow>
          Suc n = length (attempts evs) \<and> out = Inr v \<and> pauses evs = take n schedule)"
proof (intro conjI allI impI)
  from poll_shape[OF assms] show "length (attempts evs) \<le> length schedule + 1" by simp
next
  assume never: "(\<forall>v. \<not> isAcceptable v) \<and> (\<forall>x e. fst (operation x) \<noteq> Inl e)"
  from poll_shape[OF assms] have ne: "attempts evs \<noteq> []" by simp
  then have "last (attempts evs) \<in> set (attempts evs)" by simp
  from attempts_of_operation[OF assms this] never obtain v where
    v: "last (attempts evs) = Inr v" "\<not> isAcceptable v"
    by (metis sum.exhaust)
  with poll_shape[OF assms] have len: "length (attempts evs) = length schedule + 1"
    and out: "out = Inl (onTimeout ())"
    and p: "pauses evs = take (length (attempts evs) - 1) schedule"
    by auto
  from out show "out = Inl (onTimeout ())" .
  from p len show "pauses evs = schedule" by simp
  from len show "length (attempts evs) = length schedule + 1" .
next
  fix n v
  assume a: "n < length (attempts evs) \<and> attempts evs ! n = Inr v \<and> isAcceptable v"
  have last: "Suc n = length (attempts evs)"
  proof (rule ccontr)
    assume "Suc n \<noteq> length (attempts evs)"
    with a have "n < length (attempts evs) - 1" by linarith
    then have "n < length (butlast (attempts evs))" by simp
    then have "butlast (attempts evs) ! n \<in> set (butlast (attempts evs))"
      by (rule nth_mem)
    moreover from \<open>n < length (butlast (attempts evs))\<close>
    have "butlast (attempts evs) ! n = attempts evs ! n" by (simp add: nth_butlast)
    ultimately show False using poll_shape[OF assms] a by auto
  qed
  then show "Suc n = length (attempts evs)" .
  from last a have l: "last (attempts evs) = Inr v"
    by (metis diff_Suc_1 last_conv_nth list.size(3) nat.distinct(1))
  with poll_shape[OF assms] a show "out = Inr v" by simp
  from poll_shape[OF assms] last show "pauses evs = take n schedule"
    by (metis diff_Suc_1)
qed

theorem poll_bounded_witness:
  "waitForResult countingOperation (\<lambda>v. 2 \<le> v) pollTimeout noWait [100, 200] 0
     = (Inr 2, 3, [Attempt (Inr 0), Pause 100, Attempt (Inr 1), Pause 200, Attempt (Inr 2)])
   \<and> length (attempts [Attempt (Inr 0), Pause 100, Attempt (Inr 1), Pause 200,
        Attempt (Inr (2::nat))]) \<le> length [100, 200 :: nat] + 1
   \<and> pauses [Attempt (Inr 0), Pause 100, Attempt (Inr 1), Pause 200, Attempt (Inr (2::nat))]
       = take 2 [100, 200]
   \<and> (\<forall>x e. fst (countingOperation x) \<noteq> Inl e)
   \<and> waitForResult countingOperation (\<lambda>v. False) pollTimeout noWait [100, 200] 0
     = (Inl (pollTimeout ()), 3,
        [Attempt (Inr 0), Pause 100, Attempt (Inr 1), Pause 200, Attempt (Inr 2)])
   \<and> pauses [Attempt (Inr 0), Pause 100, Attempt (Inr 1), Pause 200, Attempt (Inr (2::nat))]
       = [100, 200]"
proof -
  have run: "waitForResult countingOperation (\<lambda>v. 2 \<le> v) pollTimeout noWait [100, 200] 0
     = (Inr 2, 3, [Attempt (Inr 0), Pause 100, Attempt (Inr 1), Pause 200, Attempt (Inr 2)])"
    by (simp add: countingOperation_def noWait_def numeral_2_eq_2 numeral_3_eq_3)
  have third: "2 < length (attempts [Attempt (Inr 0), Pause 100, Attempt (Inr 1), Pause 200,
        Attempt (Inr (2::nat))])
     \<and> attempts [Attempt (Inr 0), Pause 100, Attempt (Inr 1), Pause 200,
        Attempt (Inr (2::nat))] ! 2 = Inr 2 \<and> (2::nat) \<le> 2"
    by (simp add: numeral_2_eq_2)
  note inst = poll_bounded[OF run]
  from inst[THEN conjunct1]
  have 1: "length (attempts [Attempt (Inr 0), Pause 100, Attempt (Inr 1), Pause 200,
        Attempt (Inr (2::nat))]) \<le> length [100, 200 :: nat] + 1" .
  from inst[THEN conjunct2, THEN conjunct2, rule_format, OF third]
  have 2: "pauses [Attempt (Inr 0), Pause 100, Attempt (Inr 1), Pause 200,
        Attempt (Inr (2::nat))] = take 2 [100, 200]"
    by (elim conjE)
  have run2: "waitForResult countingOperation (\<lambda>v. False) pollTimeout noWait [100, 200] 0
     = (Inl (pollTimeout ()), 3,
        [Attempt (Inr 0), Pause 100, Attempt (Inr 1), Pause 200, Attempt (Inr 2)])"
    by (simp add: countingOperation_def noWait_def numeral_2_eq_2 numeral_3_eq_3)
  have ok: "\<forall>x e. fst (countingOperation x) \<noteq> Inl e"
    by (simp add: countingOperation_def)
  then have never: "(\<forall>v::nat. \<not> False) \<and> (\<forall>x e. fst (countingOperation x) \<noteq> Inl e)"
    by simp
  from poll_bounded[OF run2, THEN conjunct2, THEN conjunct1, rule_format, OF never]
  have 3: "pauses [Attempt (Inr 0), Pause 100, Attempt (Inr 1), Pause 200,
        Attempt (Inr (2::nat))] = [100, 200]"
    by (elim conjE)
  from run 1 2 ok run2 3 show ?thesis by (intro conjI)
qed

text \<open>
  Claim C8: if an invocation of the operation itself fails, the failure goes to the caller
  at once, without consuming a schedule entry and without a further attempt; retries occur
  only for results that the predicate rejects. A failure of the first invocation is the
  whole poll; a failed attempt anywhere is the last thing the poll did, its error is the
  outcome, and only the waits before it were made; every attempt that was followed by
  another one had returned a rejected result.
\<close>

theorem operation_failure_propagates:
  assumes "waitForResult operation isAcceptable onTimeout wait schedule s = (out, s', evs)"
  shows "(\<forall>e s1. operation s = (Inl e, s1) \<longrightarrow>
            out = Inl e \<and> s' = s1 \<and> evs = [Attempt (Inl e)])
     \<and> (\<forall>n e. n < length (attempts evs) \<and> attempts evs ! n = Inl e \<longrightarrow>
            Suc n = length (attempts evs) \<and> out = Inl e \<and> last evs = Attempt (Inl e)
            \<and> pauses evs = take n schedule)
     \<and> (\<forall>r \<in> set (butlast (attempts evs)). \<exists>v. r = Inr v \<and> \<not> isAcceptable v)"
proof (intro conjI allI impI)
  fix e s1
  assume "operation s = (Inl e, s1)"
  with assms have "(out, s', evs) = (Inl e, s1, [Attempt (Inl e)])"
    by (cases schedule) auto
  then show "out = Inl e" "s' = s1" "evs = [Attempt (Inl e)]" by auto
next
  fix n e
  assume a: "n < length (attempts evs) \<and> attempts evs ! n = Inl e"
  have last: "Suc n = length (attempts evs)"
  proof (rule ccontr)
    assume "Suc n \<noteq> length (attempts evs)"
    with a have "n < length (attempts evs) - 1" by linarith
    then have "n < length (butlast (attempts evs))" by simp
    then have "butlast (attempts evs) ! n \<in> set (butlast (attempts evs))"
      by (rule nth_mem)
    moreover from \<open>n < length (butlast (attempts evs))\<close>
    have "butlast (attempts evs) ! n = attempts evs ! n" by (simp add: nth_butlast)
    ultimately show False using poll_shape[OF assms] a by auto
  qed
  then show "Suc n = length (attempts evs)" .
  from last a have l: "last (attempts evs) = Inl e"
    by (metis diff_Suc_1 last_conv_nth list.size(3) nat.distinct(1))
  with poll_shape[OF assms] show "out = Inl e" by simp
  from l poll_shape[OF assms] show "last evs = Attempt (Inl e)" by simp
  from poll_shape[OF assms] last show "pauses evs = take n schedule"
    by (metis diff_Suc_1)
next
  from poll_shape[OF assms]
  show "\<forall>r \<in> set (butlast (attempts evs)). \<exists>v. r = Inr v \<and> \<not> isAcceptable v" by simp
qed

theorem operation_failure_propagates_witness:
  "waitForResult failingOperation (\<lambda>v. False) pollTimeout noWait [100, 200] 0
     = (Inl (UpstreamFailure ''boom''), 2,
        [Attempt (Inr 0), Pause 100, Attempt (Inl (UpstreamFailure ''boom''))])
   \<and> pauses [Attempt (Inr (0::nat)), Pause 100, Attempt (Inl (UpstreamFailure ''boom''))]
       = take 1 [100, 200]
   \<and> failingOperation 1 = (Inl (UpstreamFailure ''boom''), 2)
   \<and> waitForResult failingOperation (\<lambda>v. False) pollTimeout noWait [100, 200] 1
     = (Inl (UpstreamFailure ''boom''), 2, [Attempt (Inl (UpstreamFailure ''boom''))])"
proof -
  have run: "waitForResult failingOperation (\<lambda>v. False) pollTimeout noWait [100, 200] 0
     = (Inl (UpstreamFailure ''boom''), 2,
        [Attempt (Inr 0), Pause 100, Attempt (Inl (UpstreamFailure ''boom''))])"
    by (simp add: failingOperation_def noWait_def numeral_2_eq_2)
  have second: "1 < length (attempts [Attempt (Inr (0::nat)), Pause 100,
        Attempt (Inl (UpstreamFailure ''boom''))])
     \<and> attempts [Attempt (Inr (0::nat)), Pause 100, Attempt (Inl (UpstreamFailure ''boom''))] ! 1
         = Inl (UpstreamFailure ''boom'')"
    by simp
  note inst = operation_failure_propagates[OF run, THEN conjunct2, THEN conjunct1,
      rule_format, OF second]
  from inst have p: "pauses [Attempt (Inr (0::nat)), Pause 100,
      Attempt (Inl (UpstreamFailure ''boom''))] = take 1 [100, 200]"
    by (elim conjE)
  have first: "failingOperation 1 = (Inl (UpstreamFailure ''boom''), 2)"
    by (simp add: failingOperation_def numeral_2_eq_2)
  have r1: "waitForResult failingOperation (\<lambda>v. False) pollTimeout noWait [100, 200] 1
     = (Inl (UpstreamFailure ''boom''), 2, [Attempt (Inl (UpstreamFailure ''boom''))])"
    by (simp add: failingOperation_def numeral_2_eq_2)
  from operation_failure_propagates[OF r1, THEN conjunct1, rule_format, OF first]
  have triv: "Inl (UpstreamFailure ''boom'') = (Inl (UpstreamFailure ''boom'') :: error + nat)" 
    by (elim conjE)
  from run p first r1 triv show ?thesis by (intro conjI)
qed

section \<open>Properties of the cache\<close>

lemma resolveAll_pending:
  "entries c k = Some (Pending ws) \<Longrightarrow>
   fst (resolveAll (map (\<lambda>(t, caller). (t, k, caller)) others) c)
     = map (\<lambda>x. (k, Joined)) others
   \<and> entries (snd (resolveAll (map (\<lambda>(t, caller). (t, k, caller)) others) c)) k
       = Some (Pending (ws @ map snd others))"
proof (induction others arbitrary: c ws)
  case Nil
  then show ?case by simp
next
  case (Cons a others)
  obtain t caller where a: "a = (t, caller)" by (cases a)
  let ?c1 = "c\<lparr>entries := (entries c)(k \<mapsto> Pending (ws @ [caller]))\<rparr>"
  have "entries ?c1 k = Some (Pending (ws @ [caller]))" by simp
  from Cons.IH[OF this] Cons.prems a show ?case
    by (auto simp: resolve_def split: prod.splits)
qed

text \<open>
  Claim C4: for every key \<open>k\<close> and every set of concurrent calls of \<open>resolve(k, producer)\<close>
  issued before the producer resolves, the producer is invoked exactly once and every
  caller receives the identical outcome, the same value or the same failure. The calls
  are \<open>caller0\<close> at time \<open>now0\<close>, finding no live value and nothing in flight, and then
  \<open>others\<close>, each with its own time; the producer settles after all of them with
  \<open>outcome\<close>.
\<close>

theorem single_flight:
  assumes "cold now0 k c"
  shows "fst (resolveAll ((now0, k, caller0) # map (\<lambda>(t, caller). (t, k, caller)) others) c)
           = (k, Started) # map (\<lambda>x. (k, Joined)) others
     \<and> length (filter (\<lambda>r. snd r = Started)
          (fst (resolveAll ((now0, k, caller0) # map (\<lambda>(t, caller). (t, k, caller)) others) c)))
         = 1
     \<and> fst (settle now1 k outcome
          (snd (resolveAll ((now0, k, caller0) # map (\<lambda>(t, caller). (t, k, caller)) others) c)))
         = map (\<lambda>caller. (caller, outcome)) (caller0 # map snd others)"
proof -
  let ?c0 = "c\<lparr>entries := (entries c)(k \<mapsto> Pending [caller0])\<rparr>"
  from assms have r0: "resolve now0 k caller0 c = (Started, ?c0)"
    by (auto simp: cold_def resolve_def split: option.splits entry.splits)
  have "entries ?c0 k = Some (Pending [caller0])" by simp
  note rest = resolveAll_pending[OF this, of others]
  have "filter (\<lambda>r. snd r = Started) (map (\<lambda>x. (k, Joined :: 'a resolution)) others) = []"
    by (induction others) auto
  with r0 rest show ?thesis
    by (auto simp: settle_def split: prod.splits)
qed

theorem single_flight_witness:
  "cold 0 ''k'' (newRequestCache 1000 :: nat RequestCache)
   \<and> fst (resolveAll [(0, ''k'', 10), (1, ''k'', 11), (2, ''k'', 12)]
        (newRequestCache 1000 :: nat RequestCache))
       = [(''k'', Started), (''k'', Joined), (''k'', Joined)]
   \<and> fst (settle 3 ''k'' (Inr 5)
        (snd (resolveAll [(0, ''k'', 10), (1, ''k'', 11), (2, ''k'', 12)]
           (newRequestCache 1000 :: nat RequestCache))))
       = [(10, Inr 5), (11, Inr 5), (12, Inr 5)]"
proof -
  have h: "cold 0 ''k'' (newRequestCache 1000 :: nat RequestCache)"
    by (simp add: cold_def newRequestCache_def)
  from single_flight[OF h, of 10 "[(1, 11), (2, 12)]" 3 "Inr 5"] h show ?thesis
    by simp
qed

text \<open>
  Claim C7: when the producer of a key fails, the failure is not memoized and the in-flight
  marker is cleared, so that the next call of \<open>resolve\<close> for the key invokes the producer
  again from scratch. The waiters get the failure, the key has no entry afterwards, and
  a call at any later time by any caller starts the producer.
\<close>

theorem failure_not_memoized:
  assumes "entries c k = Some (Pending waiters)"
  shows "fst (settle now1 k (Inl e) c) = map (\<lambda>w. (w, Inl e)) waiters
     \<and> entries (snd (settle now1 k (Inl e) c)) k = None
     \<and> fst (resolve now2 k caller (snd (settle now1 k (Inl e) c))) = Started"
  using assms by (simp add: settle_def resolve_def)

theorem failure_not_memoized_witness:
  "entries pendingCache ''k'' = Some (Pending [7])
   \<and> fst (settle 5 ''k'' (Inl (UpstreamFailure ''boom'')) pendingCache)
       = [(7, Inl (UpstreamFailure ''boom''))]
   \<and> entries (snd (settle 5 ''k'' (Inl (UpstreamFailure ''boom'')) pendingCache)) ''k'' = None
   \<and> fst (resolve 6 ''k'' 8 (snd (settle 5 ''k'' (Inl (UpstreamFailure ''boom'')) pendingCache)))
       = Started"
proof -
  have h: "entries pendingCache ''k'' = Some (Pending [7])"
    by (simp add: pendingCache_def resolve_def newRequestCache_def)
  from failure_not_memoized[OF h, of 5 "UpstreamFailure ''boom''" 6 8] h show ?thesis
    by simp
qed

text \<open>
  The same for a caller that awaits its answer: after a producer that failed, the cache
  has nothing for the key, and the next request runs its producer.
\<close>

lemma cacheRequest_failure_retries:
  assumes "cold (now w) k c" and "producer w = (Inl e, w1)"
  shows "\<exists>c1. cacheRequest k producer c w = Some (Inl e, c1, w1) \<and> entries c1 k = None
          \<and> (\<forall>producer2. \<exists>c2. cacheRequest k producer2 c1 w1
                = Some (fst (producer2 w1), c2, snd (producer2 w1)))"
  using assms
  by (auto simp: cacheRequest_def cold_def resolve_def settle_def
        split: option.splits entry.splits prod.splits)


section \<open>Properties of the role verifier\<close>

lemma indexOf_found: "(indexOf xs x \<ge> 0) = (x \<in> set xs)"
  by (induction xs) (auto simp: Let_def)

lemma anyRoleAllowed_iff:
  "anyRoleAllowed roles allowedRoles = (set roles \<inter> set allowedRoles \<noteq> {})"
  by (induction allowedRoles) (auto simp: indexOf_found)

text \<open>
  Claim C6: for every non-empty \<open>clientId\<close>, \<open>verifyRolesAllowed(clientId, allowedRoles)\<close>
  returns true without consulting the role-lookup collaborator whenever \<open>allowedRoles\<close> is
  empty or absent (the verifier and its world are returned unchanged); otherwise it returns
  true if and only if the client's (cached) roles have a role in common with
  \<open>allowedRoles\<close>. For an empty \<open>clientId\<close> it fails with an invalid-argument error. With a
  non-empty list of allowed roles the outcome is that of \<open>getClientRoles\<close>: its failure is
  the failure of the check, its roles decide it. The roles are those of a live cache entry,
  read without any call, or those the role-lookup collaborator returns, which are then
  cached; a rejected lookup fails the check and caches nothing.
\<close>

theorem verifyRolesAllowed_correct:
  "(clientId \<noteq> [] \<and> (allowedRoles = None \<or> allowedRoles = Some []) \<longrightarrow>
      verifyRolesAllowed api clientId allowedRoles rv = Some (Inr True, rv))
   \<and> (clientId \<noteq> [] \<and> allowed \<noteq> [] \<longrightarrow>
      verifyRolesAllowed api clientId (Some allowed) rv
        = (case getClientRoles api clientId rv of
             None \<Rightarrow> None
           | Some (Inl e, rv1) \<Rightarrow> Some (Inl e, rv1)
           | Some (Inr roles, rv1) \<Rightarrow> Some (Inr (set roles \<inter> set allowed \<noteq> {}), rv1)))
   \<and> (clientId \<noteq> [] \<and> allowed \<noteq> [] \<longrightarrow>
      (verifyRolesAllowed api clientId (Some allowed) rv = Some (Inr True, rv1))
        = (\<exists>roles. getClientRoles api clientId rv = Some (Inr roles, rv1)
             \<and> set roles \<inter> set allowed \<noteq> {}))
   \<and> (clientId \<noteq> [] \<and> allowed \<noteq> []
        \<and> entries (getRequestCache rv) clientId = Some (Ready roles expiresAt)
        \<and> now (world rv) < expiresAt \<longrightarrow>
      verifyRolesAllowed api clientId (Some allowed) rv
        = Some (Inr (set roles \<inter> set allowed \<noteq> {}), rv))
   \<and> (clientId \<noteq> [] \<and> allowed \<noteq> []
        \<and> cold (now (world rv)) clientId (getRequestCache rv)
        \<and> apiGetClientRoles api (world rv) clientId = Inr (Some roles) \<longrightarrow>
      (\<exists>rv1. verifyRolesAllowed api clientId (Some allowed) rv
                = Some (Inr (set roles \<inter> set allowed \<noteq> {}), rv1)
         \<and> calls (world rv1)
             = calls (world rv) @ [ApiGetClientRoles clientId (Inr (Some roles))]
         \<and> entries (getRequestCache rv1) clientId
             = Some (Ready roles (now (world rv) + lifetime (getRequestCache rv)))))
   \<and> (clientId \<noteq> [] \<and> allowed \<noteq> []
        \<and> cold (now (world rv)) clientId (getRequestCache rv)
        \<and> apiGetClientRoles api (world rv) clientId = Inl msg \<longrightarrow>
      (\<exists>rv1. verifyRolesAllowed api clientId (Some allowed) rv
                = Some (Inl (UpstreamFailure msg), rv1)
         \<and> calls (world rv1) = calls (world rv) @ [ApiGetClientRoles clientId (Inl msg)]
         \<and> entries (getRequestCache rv1) clientId = None))
   \<and> verifyRolesAllowed api [] allowedRoles rv
        = Some (Inl (InvalidArgument
             ''RoleVerifier: called verifyRolesAllowed() without a clientId''), rv)"
proof (intro conjI impI)
  assume "clientId \<noteq> [] \<and> (allowedRoles = None \<or> allowedRoles = Some [])"
  then show "verifyRolesAllowed api clientId allowedRoles rv = Some (Inr True, rv)"
    by (auto simp: verifyRolesAllowed_def)
next
  assume "clientId \<noteq> [] \<and> allowed \<noteq> []"
  then show "verifyRolesAllowed api clientId (Some allowed) rv
        = (case getClientRoles api clientId rv of
             None \<Rightarrow> None
           | Some (Inl e, rv1) \<Rightarrow> Some (Inl e, rv1)
           | Some (Inr roles, rv1) \<Rightarrow> Some (Inr (set roles \<inter> set allowed \<noteq> {}), rv1))"
    by (auto simp: verifyRolesAllowed_def anyRoleAllowed_iff
          split: option.splits sum.splits prod.splits)
next
  assume "clientId \<noteq> [] \<and> allowed \<noteq> []"
  then show "(verifyRolesAllowed api clientId (Some allowed) rv = Some (Inr True, rv1))
        = (\<exists>roles. getClientRoles api clientId rv = Some (Inr roles, rv1)
             \<and> set roles \<inter> set allowed \<noteq> {})"
    by (auto simp: verifyRolesAllowed_def anyRoleAllowed_iff
          split: option.splits sum.splits prod.splits)
next
  assume "clientId \<noteq> [] \<and> allowed \<noteq> []
        \<and> entries (getRequestCache rv) clientId = Some (Ready roles expiresAt)
        \<and> now (world rv) < expiresAt"
  then show "verifyRolesAllowed api clientId (Some allowed) rv
        = Some (Inr (set roles \<inter> set allowed \<noteq> {}), rv)"
    by (simp add: verifyRolesAllowed_def anyRoleAllowed_iff getClientRoles_def
          cacheRequest_def resolve_def)
next
  assume a: "clientId \<noteq> [] \<and> allowed \<noteq> []
        \<and> cold (now (world rv)) clientId (getRequestCache rv)
        \<and> apiGetClientRoles api (world rv) clientId = Inr (Some roles)"
  then have op: "callGetClientRoles api clientId (world rv)
      = (Inr (Some roles),
         (world rv)\<lparr>calls := calls (world rv) @ [ApiGetClientRoles clientId (Inr (Some roles))]\<rparr>)"
    by (simp add: callGetClientRoles_def Let_def)
  from a have st: "fst (resolve (now (world rv)) clientId 0 (getRequestCache rv)) = Started"
    "entries (snd (resolve (now (world rv)) clientId 0 (getRequestCache rv))) clientId
       = Some (Pending [0])"
    "lifetime (snd (resolve (now (world rv)) clientId 0 (getRequestCache rv)))
       = lifetime (getRequestCache rv)"
    by (auto simp: cold_def resolve_def split: option.splits entry.splits)
  from a op st show "\<exists>rv1. verifyRolesAllowed api clientId (Some allowed) rv
                = Some (Inr (set roles \<inter> set allowed \<noteq> {}), rv1)
         \<and> calls (world rv1)
             = calls (world rv) @ [ApiGetClientRoles clientId (Inr (Some roles))]
         \<and> entries (getRequestCache rv1) clientId
             = Some (Ready roles (now (world rv) + lifetime (getRequestCache rv)))"
    by (cases "resolve (now (world rv)) clientId 0 (getRequestCache rv)")
       (simp add: verifyRolesAllowed_def anyRoleAllowed_iff getClientRoles_def
          cacheRequest_def settle_def EXPONENTIAL_BACKOFF_SCHEDULE_def)
next
  assume a: "clientId \<noteq> [] \<and> allowed \<noteq> []
        \<and> cold (now (world rv)) clientId (getRequestCache rv)
        \<and> apiGetClientRoles api (world rv) clientId = Inl msg"
  then have op: "callGetClientRoles api clientId (world rv)
      = (Inl (UpstreamFailure msg),
         (world rv)\<lparr>calls := calls (world rv) @ [ApiGetClientRoles clientId (Inl msg)]\<rparr>)"
    by (simp add: callGetClientRoles_def Let_def)
  from a have st: "fst (resolve (now (world rv)) clientId 0 (getRequestCache rv)) = Started"
    "entries (snd (resolve (now (world rv)) clientId 0 (getRequestCache rv))) clientId
       = Some (Pending [0])"
    by (auto simp: cold_def resolve_def split: option.splits entry.splits)
  from a op st show "\<exists>rv1. verifyRolesAllowed api clientId (Some allowed) rv
                = Some (Inl (UpstreamFailure msg), rv1)
         \<and> calls (world rv1) = calls (world rv) @ [ApiGetClientRoles clientId (Inl msg)]
         \<and> entries (getRequestCache rv1) clientId = None"
    by (cases "resolve (now (world rv)) clientId 0 (getRequestCache rv)")
       (simp add: verifyRolesAllowed_def getClientRoles_def
          cacheRequest_def settle_def EXPONENTIAL_BACKOFF_SCHEDULE_def)
next
  show "verifyRolesAllowed api [] allowedRoles rv
        = Some (Inl (InvalidArgument
             ''RoleVerifier: called verifyRolesAllowed() without a clientId''), rv)"
    by (simp add: verifyRolesAllowed_def)
qed

theorem verifyRolesAllowed_correct_witness:
  "verifyRolesAllowed presenterApi ''client'' (Some []) freshVerifier
     = Some (Inr True, freshVerifier)
   \<and> map_option fst (getClientRoles presenterApi ''client'' freshVerifier)
       = Some (Inr [''Presenter''])
   \<and> map_option fst (verifyRolesAllowed presenterApi ''client''
        (Some [''Organizer'', ''Presenter'']) freshVerifier) = Some (Inr True)
   \<and> map_option fst (verifyRolesAllowed presenterApi ''client''
        (Some [''Organizer'']) freshVerifier) = Some (Inr False)
   \<and> cold (now (world freshVerifier)) ''client'' (getRequestCache freshVerifier)
   \<and> apiGetClientRoles failingApi (world freshVerifier) ''client'' = Inl ''offline''
   \<and> map_option fst (verifyRolesAllowed failingApi ''client''
        (Some [''Organizer'']) freshVerifier) = Some (Inl (UpstreamFailure ''offline''))"
proof -
  have cold0: "cold (now (world freshVerifier)) ''client'' (getRequestCache freshVerifier)"
    by (simp add: cold_def freshVerifier_def newRoleVerifier_def newRequestCache_def)
  have ok: "apiGetClientRoles presenterApi (world freshVerifier) ''client''
      = Inr (Some [''Presenter''])"
    by (simp add: presenterApi_def)
  have bad: "apiGetClientRoles failingApi (world freshVerifier) ''client'' = Inl ''offline''"
    by (simp add: failingApi_def)
  have a: "''client'' \<noteq> [] \<and> (Some [] = None \<or> Some [] = Some ([] :: UserMeetingRole list))"
    by simp
  from verifyRolesAllowed_correct[where clientId = "''client''" and allowedRoles = "Some []"
      and api = presenterApi and rv = freshVerifier, THEN conjunct1, rule_format, OF a]
  have 1: "verifyRolesAllowed presenterApi ''client'' (Some []) freshVerifier
     = Some (Inr True, freshVerifier)" .
  have b: "''client'' \<noteq> [] \<and> [''Organizer'', ''Presenter''] \<noteq> []
      \<and> cold (now (world freshVerifier)) ''client'' (getRequestCache freshVerifier)
      \<and> apiGetClientRoles presenterApi (world freshVerifier) ''client''
          = Inr (Some [''Presenter''])"
    using cold0 ok by simp
  from verifyRolesAllowed_correct[where clientId = "''client''"
      and allowed = "[''Organizer'', ''Presenter'']" and api = presenterApi
      and rv = freshVerifier and roles = "[''Presenter'']",
      THEN conjunct2, THEN conjunct2, THEN conjunct2, THEN conjunct2, THEN conjunct1,
      rule_format, OF b]
  have 2: "map_option fst (verifyRolesAllowed presenterApi ''client''
        (Some [''Organizer'', ''Presenter'']) freshVerifier) = Some (Inr True)"
    by auto
  have c: "''client'' \<noteq> [] \<and> [''Organizer''] \<noteq> []
      \<and> cold (now (world freshVerifier)) ''client'' (getRequestCache freshVerifier)
      \<and> apiGetClientRoles presenterApi (world freshVerifier) ''client''
          = Inr (Some [''Presenter''])"
    using cold0 ok by simp
  from verifyRolesAllowed_correct[where clientId = "''client''"
      and allowed = "[''Organizer'']" and api = presenterApi
      and rv = freshVerifier and roles = "[''Presenter'']",
      THEN conjunct2, THEN conjunct2, THEN conjunct2, THEN conjunct2, THEN conjunct1,
      rule_format, OF c]
  have 3: "map_option fst (verifyRolesAllowed presenterApi ''client''
        (Some [''Organizer'']) freshVerifier) = Some (Inr False)"
    by auto
  have d: "''client'' \<noteq> [] \<and> [''Organizer''] \<noteq> []
      \<and> cold (now (world freshVerifier)) ''client'' (getRequestCache freshVerifier)
      \<and> apiGetClientRoles failingApi (world freshVerifier) ''client'' = Inl ''offline''"
    using cold0 bad by simp
  from verifyRolesAllowed_correct[where clientId = "''client''"
      and allowed = "[''Organizer'']" and api = failingApi
      and rv = freshVerifier and msg = "''offline''",
      THEN conjunct2, THEN conjunct2, THEN conjunct2, THEN conjunct2, THEN conjunct2,
      THEN conjunct1, rule_format, OF d]
  have 4: "map_option fst (verifyRolesAllowed failingApi ''client''
        (Some [''Organizer'']) freshVerifier) = Some (Inl (UpstreamFailure ''offline''))"
    by auto
  have g: "map_option fst (getClientRoles presenterApi ''client'' freshVerifier)
       = Some (Inr [''Presenter''])"
    by (simp add: getClientRoles_def cacheRequest_def resolve_def settle_def
          freshVerifier_def newRoleVerifier_def newRequestCache_def presenterApi_def
          callGetClientRoles_def EXPONENTIAL_BACKOFF_SCHEDULE_def Let_def)
  from 1 g 2 3 cold0 bad 4 show ?thesis by (intro conjI)
qed

subsection \<open>Registration does not check the client ID\<close>

lemma register_poll_first_call:
  "waitForResult (callRegisterClientId api clientId) isAcceptable onTimeout sleep schedule w
     = (out, w', evs) \<Longrightarrow>
   \<exists>rest. calls w'
     = calls w @ ApiRegisterClientId clientId (apiRegisterClientId api w clientId) # rest"
proof (induction schedule arbitrary: w out w' evs)
  case Nil
  have "callRegisterClientId api clientId w
      = (upstream (apiRegisterClientId api w clientId),
         w\<lparr>calls := calls w
              @ [ApiRegisterClientId clientId (apiRegisterClientId api w clientId)]\<rparr>)"
    by (simp add: callRegisterClientId_def Let_def)
  with Nil show ?case
    by (auto split: sum.splits if_splits)
next
  case (Cons d schedule)
  let ?w0 = "w\<lparr>calls := calls w
                @ [ApiRegisterClientId clientId (apiRegisterClientId api w clientId)]\<rparr>"
  have op: "callRegisterClientId api clientId w
      = (upstream (apiRegisterClientId api w clientId), ?w0)"
    by (simp add: callRegisterClientId_def Let_def)
  show ?case
  proof (cases "upstream (apiRegisterClientId api w clientId)")
    case (Inl e)
    with Cons.prems op show ?thesis by auto
  next
    case (Inr v)
    show ?thesis
    proof (cases "isAcceptable v")
      case True
      with Inr Cons.prems op show ?thesis by auto
    next
      case False
      from False Inr Cons.prems op obtain evs2 where
        "waitForResult (callRegisterClientId api clientId) isAcceptable onTimeout sleep
           schedule (sleep d ?w0) = (out, w', evs2)"
        by (auto split: prod.splits)
      from Cons.IH[OF this] show ?thesis by (auto simp: sleep_def)
    qed
  qed
qed

lemma register_producer_class:
  assumes "asRoles (waitForResult (callRegisterClientId api clientId) isArray
             (\<lambda>u. Timeout m0) sleep schedule w) = (Inl e, w')"
  shows "notInvalidArgument e"
proof -
  obtain out w1 evs where run:
    "waitForResult (callRegisterClientId api clientId) isArray (\<lambda>u. Timeout m0) sleep
       schedule w = (out, w1, evs)"
    by (metis prod_cases3)
  have op: "\<And>x e. fst (callRegisterClientId api clientId x) = Inl e \<Longrightarrow> notInvalidArgument e"
    by (auto simp: callRegisterClientId_def Let_def elim!: upstream.elims)
  show ?thesis
  proof (cases out)
    case (Inl e')
    with run poll_error_class[of "callRegisterClientId api clientId" notInvalidArgument
        "\<lambda>u. Timeout m0", OF op] assms
    show ?thesis by auto
  next
    case (Inr v)
    with run assms show ?thesis by (cases v) auto
  qed
qed

lemma register_producer_calls:
  assumes "asRoles (waitForResult (callRegisterClientId api clientId) isArray onTimeout
             sleep schedule w) = (out, w')"
  shows "\<exists>rest. calls w'
     = calls w @ ApiRegisterClientId clientId (apiRegisterClientId api w clientId) # rest"
proof -
  obtain out1 w1 evs where run:
    "waitForResult (callRegisterClientId api clientId) isArray onTimeout sleep schedule w
       = (out1, w1, evs)"
    by (metis prod_cases3)
  with assms have "w' = w1" by (cases "(out1, w1, evs)" rule: asRoles.cases) auto
  with register_poll_first_call[OF run] show ?thesis by simp
qed

text \<open>
  The narrowing of a poll's result to an array never meets a value that is not one: the
  poll with \<open>Array.isArray\<close> as its predicate returns arrays only.
\<close>

lemma asRoles_total:
  assumes "waitForResult operation isArray onTimeout wait schedule w = (Inr v, w', evs)"
  shows "\<exists>roles. v = Some roles \<and> asRoles (Inr v, w', evs) = (Inr roles, w')"
  using poll_accepted[OF assms] by (cases v) auto

text \<open>
  Claim C10: \<open>registerClientId\<close> performs no validation of its \<open>clientId\<close> argument. For
  every \<open>clientId\<close>, the empty string included, it never fails with an invalid-argument
  error; instead, with nothing live cached under that key, it polls the registration
  collaborator with that ID, first of all, and caches the roles it obtains under that
  key (a failure is not cached); roles that the collaborator returns at once are the
  result after that single call; a live entry is served without any call.
  \<open>getClientRoles\<close>, in contrast, rejects an empty \<open>clientId\<close> before any other work. All
  parts but the last hold for every \<open>clientId\<close>, and so for the empty one.
\<close>

theorem registerClientId_no_validation:
  "(\<forall>out rv1 m. registerClientId api clientId rv = Some (out, rv1) \<longrightarrow>
       out \<noteq> Inl (InvalidArgument m))
   \<and> (cold (now (world rv)) clientId (registerRequestCache rv) \<longrightarrow>
        (\<exists>out rv1 rest. registerClientId api clientId rv = Some (out, rv1)
           \<and> calls (world rv1)
               = calls (world rv)
                 @ ApiRegisterClientId clientId (apiRegisterClientId api (world rv) clientId)
                   # rest
           \<and> (case out of
                 Inr roles \<Rightarrow>
                   entries (registerRequestCache rv1) clientId
                     = Some (Ready roles
                         (now (world rv1) + lifetime (registerRequestCache rv)))
               | Inl e \<Rightarrow> entries (registerRequestCache rv1) clientId = None)))
   \<and> (cold (now (world rv)) clientId (registerRequestCache rv)
        \<and> apiRegisterClientId api (world rv) clientId = Inr (Some roles) \<longrightarrow>
        (\<exists>rv1. registerClientId api clientId rv = Some (Inr roles, rv1)
           \<and> calls (world rv1)
               = calls (world rv) @ [ApiRegisterClientId clientId (Inr (Some roles))]
           \<and> entries (registerRequestCache rv1) clientId
               = Some (Ready roles (now (world rv) + lifetime (registerRequestCache rv)))))
   \<and> (entries (registerRequestCache rv) clientId = Some (Ready roles expiresAt)
        \<and> now (world rv) < expiresAt \<longrightarrow>
        registerClientId api clientId rv = Some (Inr roles, rv))
   \<and> getClientRoles api [] rv
        = Some (Inl (InvalidArgument
             ''RoleVerifier: called getCLientRoles() without a clientId''), rv)"
proof (intro conjI allI impI)
  fix out rv1 m
  assume "registerClientId api clientId rv = Some (out, rv1)"
  then show "out \<noteq> Inl (InvalidArgument m)"
    by (auto simp: registerClientId_def cacheRequest_def resolve_def
          split: option.splits prod.splits entry.splits if_splits resolution.splits
          dest!: register_producer_class)
next
  assume a: "cold (now (world rv)) clientId (registerRequestCache rv)"
  define c1 where "c1 = snd (resolve (now (world rv)) clientId 0 (registerRequestCache rv))"
  from a have st: "resolve (now (world rv)) clientId 0 (registerRequestCache rv)
      = (Started, c1)"
    "entries c1 clientId = Some (Pending [0])"
    "lifetime c1 = lifetime (registerRequestCache rv)"
    by (auto simp: c1_def cold_def resolve_def split: option.splits entry.splits)
  obtain out w1 where p: "asRoles (waitForResult (callRegisterClientId api clientId) isArray
      (\<lambda>u. Timeout ''RoleVerifier: timed out registering local client ID'')
      sleep EXPONENTIAL_BACKOFF_SCHEDULE (world rv)) = (out, w1)"
    by (rule prod.exhaust)
  let ?rv1 = "rv\<lparr>registerRequestCache := snd (settle (now w1) clientId out c1), world := w1\<rparr>"
  from st(1) p have r: "registerClientId api clientId rv = Some (out, ?rv1)"
    by (simp add: registerClientId_def cacheRequest_def)
  from register_producer_calls[OF p] obtain rest where
    c: "calls w1 = calls (world rv)
          @ ApiRegisterClientId clientId (apiRegisterClientId api (world rv) clientId) # rest"
    by blast
  from st(2,3) have e: "case out of
       Inr roles \<Rightarrow> entries (snd (settle (now w1) clientId out c1)) clientId
           = Some (Ready roles (now w1 + lifetime (registerRequestCache rv)))
     | Inl e \<Rightarrow> entries (snd (settle (now w1) clientId out c1)) clientId = None"
    by (cases out) (simp_all add: settle_def)
  have "registerClientId api clientId rv = Some (out, ?rv1)
      \<and> calls (world ?rv1)
          = calls (world rv)
            @ ApiRegisterClientId clientId (apiRegisterClientId api (world rv) clientId) # rest
      \<and> (case out of
            Inr roles \<Rightarrow>
              entries (registerRequestCache ?rv1) clientId
                = Some (Ready roles (now (world ?rv1) + lifetime (registerRequestCache rv)))
          | Inl e \<Rightarrow> entries (registerRequestCache ?rv1) clientId = None)"
    using r c e by (cases out) simp_all
  then show "\<exists>out rv1 rest. registerClientId api clientId rv = Some (out, rv1)
           \<and> calls (world rv1)
               = calls (world rv)
                 @ ApiRegisterClientId clientId (apiRegisterClientId api (world rv) clientId)
                   # rest
           \<and> (case out of
                 Inr roles \<Rightarrow>
                   entries (registerRequestCache rv1) clientId
                     = Some (Ready roles
                         (now (world rv1) + lifetime (registerRequestCache rv)))
               | Inl e \<Rightarrow> entries (registerRequestCache rv1) clientId = None)"
    by blast
next
  assume a: "cold (now (world rv)) clientId (registerRequestCache rv)
        \<and> apiRegisterClientId api (world rv) clientId = Inr (Some roles)"
  then have op: "callRegisterClientId api clientId (world rv)
      = (Inr (Some roles),
         (world rv)\<lparr>calls := calls (world rv)
            @ [ApiRegisterClientId clientId (Inr (Some roles))]\<rparr>)"
    by (simp add: callRegisterClientId_def Let_def)
  from a have st: "fst (resolve (now (world rv)) clientId 0 (registerRequestCache rv)) = Started"
    "entries (snd (resolve (now (world rv)) clientId 0 (registerRequestCache rv))) clientId
       = Some (Pending [0])"
    "lifetime (snd (resolve (now (world rv)) clientId 0 (registerRequestCache rv)))
       = lifetime (registerRequestCache rv)"
    by (auto simp: cold_def resolve_def split: option.splits entry.splits)
  from op st show "\<exists>rv1. registerClientId api clientId rv = Some (Inr roles, rv1)
           \<and> calls (world rv1)
               = calls (world rv) @ [ApiRegisterClientId clientId (Inr (Some roles))]
           \<and> entries (registerRequestCache rv1) clientId
               = Some (Ready roles (now (world rv) + lifetime (registerRequestCache rv)))"
    by (cases "resolve (now (world rv)) clientId 0 (registerRequestCache rv)")
       (simp add: registerClientId_def cacheRequest_def settle_def
          EXPONENTIAL_BACKOFF_SCHEDULE_def)
next
  assume "entries (registerRequestCache rv) clientId = Some (Ready roles expiresAt)
        \<and> now (world rv) < expiresAt"
  then show "registerClientId api clientId rv = Some (Inr roles, rv)"
    by (simp add: registerClientId_def cacheRequest_def resolve_def)
next
  show "getClientRoles api [] rv
      = Some (Inl (InvalidArgument
           ''RoleVerifier: called getCLientRoles() without a clientId''), rv)"
    by (simp add: getClientRoles_def)
qed

theorem registerClientId_no_validation_witness:
  "cold (now (world freshVerifier)) [] (registerRequestCache freshVerifier)
   \<and> apiRegisterClientId presenterApi (world freshVerifier) [] = Inr (Some [''Presenter''])
   \<and> (\<exists>rv1. registerClientId presenterApi [] freshVerifier = Some (Inr [''Presenter''], rv1)
        \<and> calls (world rv1) = [ApiRegisterClientId [] (Inr (Some [''Presenter'']))]
        \<and> entries (registerRequestCache rv1) []
            = Some (Ready [''Presenter''] CACHE_LIFETIME))
   \<and> cold (now (world freshVerifier)) ''client'' (registerRequestCache freshVerifier)
   \<and> (\<exists>rv1. registerClientId presenterApi ''client'' freshVerifier
          = Some (Inr [''Presenter''], rv1)
        \<and> calls (world rv1) = [ApiRegisterClientId ''client'' (Inr (Some [''Presenter'']))]
        \<and> entries (registerRequestCache rv1) ''client''
            = Some (Ready [''Presenter''] CACHE_LIFETIME))
   \<and> getClientRoles presenterApi [] freshVerifier
       = Some (Inl (InvalidArgument
            ''RoleVerifier: called getCLientRoles() without a clientId''), freshVerifier)"
proof -
  have h: "cold (now (world freshVerifier)) [] (registerRequestCache freshVerifier)"
    by (simp add: cold_def freshVerifier_def newRoleVerifier_def newRequestCache_def)
  have h2: "cold (now (world freshVerifier)) ''client'' (registerRequestCache freshVerifier)"
    by (simp add: cold_def freshVerifier_def newRoleVerifier_def newRequestCache_def)
  have ok: "apiRegisterClientId presenterApi (world freshVerifier) [] = Inr (Some [''Presenter''])"
    by (simp add: presenterApi_def)
  have ok2: "apiRegisterClientId presenterApi (world freshVerifier) ''client''
      = Inr (Some [''Presenter''])"
    by (simp add: presenterApi_def)
  from h ok have hk: "cold (now (world freshVerifier)) [] (registerRequestCache freshVerifier)
      \<and> apiRegisterClientId presenterApi (world freshVerifier) [] = Inr (Some [''Presenter''])"
    by simp
  from h2 ok2 have hk2:
    "cold (now (world freshVerifier)) ''client'' (registerRequestCache freshVerifier)
      \<and> apiRegisterClientId presenterApi (world freshVerifier) ''client''
          = Inr (Some [''Presenter''])"
    by simp
  have z: "calls (world freshVerifier) = []" "now (world freshVerifier) = 0"
    "lifetime (registerRequestCache freshVerifier) = CACHE_LIFETIME"
    by (simp_all add: freshVerifier_def newRoleVerifier_def newRequestCache_def)
  from registerClientId_no_validation[where api = presenterApi and clientId = "[]"
      and rv = freshVerifier and roles = "[''Presenter'']",
      THEN conjunct2, THEN conjunct2, THEN conjunct1, rule_format, OF hk]
  have 1: "\<exists>rv1. registerClientId presenterApi [] freshVerifier = Some (Inr [''Presenter''], rv1)
        \<and> calls (world rv1) = [ApiRegisterClientId [] (Inr (Some [''Presenter'']))]
        \<and> entries (registerRequestCache rv1) []
            = Some (Ready [''Presenter''] CACHE_LIFETIME)"
    by (simp add: z)
  from registerClientId_no_validation[where api = presenterApi and clientId = "''client''"
      and rv = freshVerifier and roles = "[''Presenter'']",
      THEN conjunct2, THEN conjunct2, THEN conjunct1, rule_format, OF hk2]
  have 2: "\<exists>rv1. registerClientId presenterApi ''client'' freshVerifier
          = Some (Inr [''Presenter''], rv1)
        \<and> calls (world rv1) = [ApiRegisterClientId ''client'' (Inr (Some [''Presenter'']))]
        \<and> entries (registerRequestCache rv1) ''client''
            = Some (Ready [''Presenter''] CACHE_LIFETIME)"
    by (simp add: z)
  from registerClientId_no_validation[where api = presenterApi and clientId = "[]"
      and rv = freshVerifier,
      THEN conjunct2, THEN conjunct2, THEN conjunct2, THEN conjunct2]
  have g: "getClientRoles presenterApi [] freshVerifier
       = Some (Inl (InvalidArgument
            ''RoleVerifier: called getCLientRoles() without a clientId''), freshVerifier)" .
  from h ok 1 h2 2 g show ?thesis by (intro conjI)
qed


end
